theory Spec2Isabelle
  imports Complex_Main "HOL-Library.Multiset" "HOL-Library.Log_Nat"
begin

section \<open>Python values, errors and the validated argument bag\<close>

text \<open>
  The module \<^verbatim>\<open>plenario/sensor_network/api/sensor_networks.py\<close> is Python 2 code
  (\<^verbatim>\<open>dict.itervalues\<close>, \<^verbatim>\<open>str.encode('hex')\<close>, \<^verbatim>\<open>err.message\<close>): the operator
  \<^verbatim>\<open>/\<close> on two ints is floor division, and \<^verbatim>\<open>chunk_size = 1000.0\<close> is a float
  exactly to force a true division in \<^verbatim>\<open>math.ceil(row_count / chunk_size)\<close>.

  \<^verbatim>\<open>args.data\<close> is a dict from field names to dynamically typed values. The values the
  module touches are \<^verbatim>\<open>None\<close>, strings, ints and lists of strings.
\<close>

datatype val = VNone | VStr string | VInt int | VList "string list"

datatype error =
    KeyError string
  | TypeError
  | AttributeError
  | ZeroDivisionError
  | InvalidRequestError
  | DatabaseError
  | CommitError
  | OverflowError

type_synonym args_data = "string \<rightharpoonup> val"

definition and_then :: "error + 'a \<Rightarrow> ('a \<Rightarrow> error + 'b) \<Rightarrow> error + 'b" where
  "and_then r f = (case r of Inl e \<Rightarrow> Inl e | Inr x \<Rightarrow> f x)"

text \<open>A list comprehension whose body may raise: the first exception ends it.\<close>

fun traverse :: "('a \<Rightarrow> error + 'b) \<Rightarrow> 'a list \<Rightarrow> error + 'b list" where
  "traverse f [] = Inr []"
| "traverse f (x # xs) =
     (case f x of
        Inl e \<Rightarrow> Inl e
      | Inr y \<Rightarrow> (case traverse f xs of Inl e \<Rightarrow> Inl e | Inr ys \<Rightarrow> Inr (y # ys)))"

text \<open>\<^verbatim>\<open>d.get(k)\<close>, \<^verbatim>\<open>d[k]\<close> and \<^verbatim>\<open>d.pop(k)\<close>; the last two raise KeyError.\<close>

definition data_get :: "args_data \<Rightarrow> string \<Rightarrow> val" where
  "data_get d k = (case d k of None \<Rightarrow> VNone | Some v \<Rightarrow> v)"

definition data_item :: "args_data \<Rightarrow> string \<Rightarrow> error + val" where
  "data_item d k = (case d k of None \<Rightarrow> Inl (KeyError k) | Some v \<Rightarrow> Inr v)"

definition data_pop :: "args_data \<Rightarrow> string \<Rightarrow> error + args_data" where
  "data_pop d k = (case d k of None \<Rightarrow> Inl (KeyError k) | Some v \<Rightarrow> Inr (d(k := None)))"

text \<open>Python truthiness of a value, as used by \<^verbatim>\<open>x if v else y\<close>.\<close>

fun truthy :: "val \<Rightarrow> bool" where
  "truthy VNone = False"
| "truthy (VStr s) = (s \<noteq> [])"
| "truthy (VInt i) = (i \<noteq> 0)"
| "truthy (VList l) = (l \<noteq> [])"

text \<open>\<^verbatim>\<open>str.lower()\<close> on a Python 2 byte string: ASCII letters only.\<close>

definition lower_char :: "char \<Rightarrow> char" where
  "lower_char c =
     (let n = (of_char c :: nat) in if 65 \<le> n \<and> n \<le> 90 then char_of (n + 32) else c)"

definition lower :: "string \<Rightarrow> string" where
  "lower s = map lower_char s"

text \<open>\<^verbatim>\<open>s.split(sep)[0]\<close> for a one-character separator: the text before its first occurrence.\<close>

definition split_first :: "char \<Rightarrow> string \<Rightarrow> string" where
  "split_first sep s = takeWhile (\<lambda>c. c \<noteq> sep) s"

section \<open>Catalog rows, warehouse tables and queries\<close>

record node_meta =
  nm_id :: string
  nm_sensor_network :: string
  nm_location :: string

record sensor_meta =
  sm_name :: string
  sm_observed_properties :: "(string \<times> string) list"

text \<open>
  One row of a feature table: the key columns \<^verbatim>\<open>node_id\<close>, \<^verbatim>\<open>datetime\<close>,
  \<^verbatim>\<open>meta_id\<close>, \<^verbatim>\<open>sensor\<close> and the values of the other columns by column name. The
  timestamp is a naive \<^verbatim>\<open>DateTime\<close>, held as a count of microseconds.
\<close>

record obs_row =
  o_node_id :: string
  o_datetime :: int
  o_meta_id :: int
  o_sensor :: string
  o_values :: "(string \<times> val) list"

record table =
  t_name :: string
  t_columns :: "string list"
  t_rows :: "obs_row list"

text \<open>
  The SQLAlchemy query built by \<^verbatim>\<open>observation_query\<close>: the range bounds as passed
  (\<^verbatim>\<open>None\<close> is SQL NULL), the two optional membership filters, the limit and the
  optional offset.
\<close>

record query =
  q_table :: table
  q_start :: "string option"
  q_end :: "string option"
  q_nodes :: "string list option"
  q_sensors :: "string list option"
  q_limit :: int
  q_offset :: "int option"

text \<open>
  What the module reads from its surroundings: the two catalog tables, the warehouse
  (a table name with no table is \<^verbatim>\<open>NoSuchTableError\<close>), PostGIS containment, the
  text form of a timestamp (\<^verbatim>\<open>datetime.isoformat\<close>), its reading by
  \<^verbatim>\<open>dateutil.parser.parse\<close>, the warehouse's cast of a literal to a timestamp, and the
  two helpers of \<^verbatim>\<open>plenario.database\<close> that are not part of the sources at hand,
  \<^verbatim>\<open>fast_count\<close> and \<^verbatim>\<open>windowed_query\<close>, taken as parameters. For the fan-out:
  the order in which the scheduler lets the threads append, as the list of the numbers of
  the threads that append next. For the job runner:
  whether the n-th \<^verbatim>\<open>session.commit()\<close> fails, the n-th draw of
  \<^verbatim>\<open>os.urandom(16).encode('hex')\<close>, and \<^verbatim>\<open>str(datetime.now())\<close>.
\<close>

record env =
  node_table :: "node_meta list"
  sensor_table :: "sensor_meta list"
  warehouse :: "string \<rightharpoonup> table"
  st_within :: "string \<Rightarrow> string \<Rightarrow> bool"
  isoformat :: "int \<Rightarrow> string"
  parse :: "string \<Rightarrow> int"
  db_timestamp :: "string \<Rightarrow> int"
  fast_count :: "query \<Rightarrow> int"
  windowed_query :: "query \<Rightarrow> obs_row list"
  schedule :: "nat list"
  commit_fails :: "nat \<Rightarrow> bool"
  urandom_hex :: "nat \<Rightarrow> string"
  clock_now :: string

section \<open>HTTP responses\<close>

text \<open>
  The formatted observation of \<^verbatim>\<open>format_observation\<close> and the JSON envelope of
  \<^verbatim>\<open>make_error\<close> and \<^verbatim>\<open>json_response_base\<close>.
\<close>

record observation =
  ob_node_id :: string
  ob_meta_id :: int
  ob_datetime :: string
  ob_sensor :: string
  ob_feature_of_interest :: string
  ob_results :: "(string \<times> val) list"

record response =
  status_code :: nat
  meta_status :: string
  meta_message :: val
  meta_query :: "string \<rightharpoonup> val"
  objects :: "observation list"

definition request_query :: "(string \<rightharpoonup> string) \<Rightarrow> (string \<rightharpoonup> val)" where
  "request_query request_args = (\<lambda>k. map_option VStr (request_args k))"

definition make_error :: "(string \<rightharpoonup> string) \<Rightarrow> string \<Rightarrow> nat \<Rightarrow> response" where
  "make_error request_args msg code =
     \<lparr>status_code = code, meta_status = ''error'', meta_message = VStr msg,
      meta_query = request_query request_args, objects = []\<rparr>"

definition bad_request :: "(string \<rightharpoonup> string) \<Rightarrow> string \<Rightarrow> response" where
  "bad_request request_args msg = make_error request_args msg 400"

definition json_response_base ::
    "string list \<Rightarrow> observation list \<Rightarrow> (string \<rightharpoonup> val) \<Rightarrow> response" where
  "json_response_base warnings objs query =
     \<lparr>status_code = 200, meta_status = ''ok'', meta_message = VList warnings,
      meta_query = query, objects = objs\<rparr>"

section \<open>The planner\<close>

text \<open>
  \<^verbatim>\<open>node_metadata_query(args).all()\<close>: the rows of the node table that pass the
  filters. A filter on \<^verbatim>\<open>node_id\<close>, \<^verbatim>\<open>nodes\<close> or \<^verbatim>\<open>geom\<close> is applied only when the
  value is truthy; the comparison with a \<^verbatim>\<open>None\<close> network name is NULL and keeps no row.
\<close>

definition node_metadata_query :: "env \<Rightarrow> args_data \<Rightarrow> node_meta list" where
  "node_metadata_query e d =
     (let network_name = data_get d ''network_name'';
          node_id = data_get d ''node_id'';
          nodes = data_get d ''nodes'';
          geojson = data_get d ''geom''
      in filter (\<lambda>n.
           (case network_name of
              VStr nw \<Rightarrow> lower (nm_sensor_network n) = lower nw
            | _ \<Rightarrow> False)
         \<and> (case node_id of
              VStr i \<Rightarrow> (if i \<noteq> [] then lower (nm_id n) = lower i else True)
            | _ \<Rightarrow> True)
         \<and> (case nodes of
              VList l \<Rightarrow> (if l \<noteq> [] then lower (nm_id n) \<in> set l else True)
            | _ \<Rightarrow> True)
         \<and> (case geojson of
              VStr g \<Rightarrow> (if g \<noteq> [] then st_within e (nm_location n) g else True)
            | _ \<Rightarrow> True))
         (node_table e))"

text \<open>
  A membership filter \<^verbatim>\<open>col.in_(v) if v else q\<close>: absent when the value is falsy,
  a list when it is a non-empty list; any other truthy value is not a sequence.
\<close>

fun membership_filter :: "val \<Rightarrow> error + string list option" where
  "membership_filter (VList l) = Inr (if l \<noteq> [] then Some l else None)"
| "membership_filter v = (if truthy v then Inl InvalidRequestError else Inr None)"

fun range_bound :: "val \<Rightarrow> error + string option" where
  "range_bound VNone = Inr None"
| "range_bound (VStr s) = Inr (Some s)"
| "range_bound v = Inl TypeError"

text \<open>Python 2 \<^verbatim>\<open>a / b\<close> on the values of the bag: floor division of two ints.\<close>

fun py_div :: "val \<Rightarrow> nat \<Rightarrow> error + int" where
  "py_div (VInt a) b = (if b = 0 then Inl ZeroDivisionError else Inr (a div int b))"
| "py_div v b = Inl TypeError"

definition observation_query :: "args_data \<Rightarrow> nat \<Rightarrow> table \<Rightarrow> error + query" where
  "observation_query d num_tables tbl =
     (let nodes = data_get d ''nodes'';
          start_dt = data_get d ''start_datetime'';
          end_dt = data_get d ''end_datetime'';
          sensors = data_get d ''sensors'';
          limit = data_get d ''limit'';
          offset = data_get d ''offset''
      in and_then (range_bound start_dt) (\<lambda>s.
         and_then (range_bound end_dt) (\<lambda>en.
         and_then (membership_filter nodes) (\<lambda>ns.
         and_then (membership_filter sensors) (\<lambda>ss.
         and_then (py_div limit num_tables) (\<lambda>lim.
         and_then (data_item d ''offset'') (\<lambda>off.
         and_then (if truthy off then map_sum id Some (py_div offset num_tables) else Inr None)
           (\<lambda>ofs.
         Inr \<lparr>q_table = tbl, q_start = s, q_end = en, q_nodes = ns, q_sensors = ss,
              q_limit = lim, q_offset = ofs\<rparr>))))))))"

text \<open>
  The value \<^verbatim>\<open>get_observation_queries\<close> returns is either the list of
  (query, table) pairs or, when a table is missing, the response object made by
  \<^verbatim>\<open>bad_request\<close>.
\<close>

datatype plan = Queries "(query \<times> table) list" | Response response

definition sensor_features :: "sensor_meta \<Rightarrow> string list" where
  "sensor_features s =
     remdups (map (\<lambda>(k, prop). lower (split_first (CHR ''.'') prop)) (sm_observed_properties s))"

text \<open>
  The loop over the candidate features: every table is looked up before any query is
  built, and the first missing one ends the function with the 400 response.
\<close>

fun load_tables ::
    "env \<Rightarrow> (string \<rightharpoonup> string) \<Rightarrow> string list \<Rightarrow> table list \<Rightarrow> response + table list" where
  "load_tables e request_args [] tables = Inr tables"
| "load_tables e request_args (feature # features) tables =
     (let table_name = lower feature
      in case warehouse e table_name of
           None \<Rightarrow> Inl (bad_request request_args (''Table '' @ table_name @ '' not found''))
         | Some t \<Rightarrow> load_tables e request_args features (tables @ [t]))"

text \<open>The expression \<^verbatim>\<open>x.split("+")[0] if x else None\<close>.\<close>

definition strip_offset :: "val \<Rightarrow> error + val" where
  "strip_offset v =
     (if truthy v
      then (case v of VStr s \<Rightarrow> Inr (VStr (split_first (CHR ''+'') s)) | _ \<Rightarrow> Inl AttributeError)
      else Inr VNone)"

text \<open>
  The candidate features: the requested features that some target sensor reports.
  \<^verbatim>\<open>args.data['features_of_interest']\<close> raises KeyError when the key is missing, and
  \<^verbatim>\<open>in_(target_sensors)\<close> rejects a value that is not a sequence. A Python set is
  iterated in an order the language does not fix; the intersection
  \<^verbatim>\<open>set(features).intersection(all_features)\<close> is enumerated here in the order of the
  requested features.
\<close>

definition candidate_features :: "env \<Rightarrow> args_data \<Rightarrow> error + string list" where
  "candidate_features e d =
     and_then (data_item d ''features_of_interest'') (\<lambda>features.
     and_then (case data_get d ''sensors'' of
                 VList l \<Rightarrow> Inr l
               | _ \<Rightarrow> Inl InvalidRequestError) (\<lambda>target_sensors.
     let sensors = filter (\<lambda>s. lower (sm_name s) \<in> set target_sensors) (sensor_table e);
         all_features = concat (map sensor_features sensors)
     in (case features of
           VList l \<Rightarrow> Inr (remdups (filter (\<lambda>f. f \<in> set all_features) l))
         | _ \<Rightarrow> Inl TypeError)))"

definition get_observation_queries ::
    "env \<Rightarrow> (string \<rightharpoonup> string) \<Rightarrow> args_data \<Rightarrow> error + (args_data \<times> plan)" where
  "get_observation_queries e request_args d0 =
     and_then (strip_offset (data_get d0 ''start_dt'')) (\<lambda>sd.
     and_then (strip_offset (data_get d0 ''end_dt'')) (\<lambda>ed.
     let d1 = d0(''start_dt'' \<mapsto> sd, ''end_dt'' \<mapsto> ed);
         nodes_to_query = map (\<lambda>n. lower (nm_id n)) (node_metadata_query e d1);
         d = d1(''nodes'' \<mapsto> VList nodes_to_query)
     in and_then (candidate_features e d) (\<lambda>fs.
        case load_tables e request_args fs [] of
          Inl resp \<Rightarrow> Inr (d, Response resp)
        | Inr tables \<Rightarrow>
            and_then (traverse (\<lambda>t. map_sum id (\<lambda>q. (q, t))
                                       (observation_query d (length tables) t)) tables)
              (\<lambda>qs. Inr (d, Queries qs)))))"

text \<open>
  The argument bag as \<^const>\<open>get_observation_queries\<close> leaves it, and the list of pairs it
  returns when it returns one.
\<close>

definition planner_data :: "env \<Rightarrow> args_data \<Rightarrow> val \<Rightarrow> val \<Rightarrow> args_data" where
  "planner_data e d0 sd ed =
     (let d1 = d0(''start_dt'' \<mapsto> sd, ''end_dt'' \<mapsto> ed)
      in d1(''nodes'' \<mapsto> VList (map (\<lambda>n. lower (nm_id n)) (node_metadata_query e d1))))"

definition plan_queries :: "error + args_data \<times> plan \<Rightarrow> (query \<times> table) list option" where
  "plan_queries r = (case r of Inr (d, Queries qs) \<Rightarrow> Some qs | _ \<Rightarrow> None)"



section \<open>The executor and the merger\<close>

text \<open>
  \<^verbatim>\<open>obs_query.all()\<close>: the rows of the table that satisfy
  \<^verbatim>\<open>datetime >= start AND datetime < end\<close> and the membership filters, then OFFSET, then
  LIMIT. A comparison with NULL is not true, so a missing bound keeps no row; the
  warehouse rejects a negative LIMIT or OFFSET. No ORDER BY is given: the rows come in
  the order the table holds them.
\<close>

definition row_matches :: "env \<Rightarrow> query \<Rightarrow> obs_row \<Rightarrow> bool" where
  "row_matches e q r =
     ((case (q_start q, q_end q) of
         (Some s, Some en) \<Rightarrow> db_timestamp e s \<le> o_datetime r \<and> o_datetime r < db_timestamp e en
       | _ \<Rightarrow> False)
    \<and> (case q_nodes q of None \<Rightarrow> True | Some ns \<Rightarrow> lower (o_node_id r) \<in> set ns)
    \<and> (case q_sensors q of None \<Rightarrow> True | Some ss \<Rightarrow> lower (o_sensor r) \<in> set ss))"

definition query_all :: "env \<Rightarrow> query \<Rightarrow> error + obs_row list" where
  "query_all e q =
     (let off = (case q_offset q of None \<Rightarrow> 0 | Some n \<Rightarrow> n)
      in if q_limit q < 0 \<or> off < 0 then Inl DatabaseError
         else Inr (take (nat (q_limit q))
                    (drop (nat off) (filter (row_matches e q) (t_rows (q_table q))))))"

text \<open>
  \<^verbatim>\<open>format_observation\<close>. A row holds one value for each column of its table;
  \<^verbatim>\<open>results\<close> keeps those of the columns other than the four key columns.
\<close>

definition format_observation :: "env \<Rightarrow> obs_row \<Rightarrow> table \<Rightarrow> observation" where
  "format_observation e obs tbl =
     \<lparr>ob_node_id = o_node_id obs,
      ob_meta_id = o_meta_id obs,
      ob_datetime = split_first (CHR ''+'') (isoformat e (o_datetime obs)),
      ob_sensor = o_sensor obs,
      ob_feature_of_interest = t_name tbl,
      ob_results = filter (\<lambda>(prop, v). prop \<in> set (t_columns tbl)
                             \<and> prop \<notin> {''node_id'', ''datetime'', ''sensor'', ''meta_id''})
                     (o_values obs)\<rparr>"

text \<open>
  The body of one fan-out thread. An exception of \<^verbatim>\<open>.all()\<close> ends the thread before
  it appends anything and is not passed on to the joining thread.
\<close>

definition fetch_query_results ::
    "env \<Rightarrow> observation list \<Rightarrow> query \<Rightarrow> table \<Rightarrow> observation list" where
  "fetch_query_results e data obs_query obs_table =
     (case query_all e obs_query of
        Inl err \<Rightarrow> data
      | Inr rows \<Rightarrow> data @ map (\<lambda>obs. format_observation e obs obs_table) rows)"

text \<open>
  The shared list. Each thread appends its own rows in their order; between two appends of
  one thread any other thread may append. The schedule names the thread that appends
  next (a thread with no row left, or a number that is no thread, is passed over); when
  the schedule ends, the join lets each thread append the rows it has left.
\<close>

fun interleave :: "nat list \<Rightarrow> 'a list list \<Rightarrow> 'a list" where
  "interleave [] rows = concat rows"
| "interleave (i # sched) rows =
     (if i < length rows
      then (case rows ! i of
              [] \<Rightarrow> interleave sched rows
            | x # rest \<Rightarrow> x # interleave sched (rows[i := rest]))
      else interleave sched rows)"

definition run_threads :: "env \<Rightarrow> (query \<times> table) list \<Rightarrow> observation list" where
  "run_threads e queries =
     interleave (schedule e) (map (\<lambda>(q, t). fetch_query_results e [] q t) queries)"

definition pop_unless_requested ::
    "(string \<rightharpoonup> string) \<Rightarrow> string \<Rightarrow> args_data \<Rightarrow> error + args_data" where
  "pop_unless_requested request_args k d = (if request_args k = None then data_pop d k else Inr d)"

definition strip_if_requested ::
    "(string \<rightharpoonup> string) \<Rightarrow> string \<Rightarrow> args_data \<Rightarrow> error + args_data" where
  "strip_if_requested request_args k d =
     (if request_args k \<noteq> None
      then and_then (data_item d k) (\<lambda>v.
             case v of VStr s \<Rightarrow> Inr (d(k \<mapsto> VStr (split_first (CHR ''+'') s)))
                     | _ \<Rightarrow> Inl AttributeError)
      else Inr d)"

definition remove_null_args :: "args_data \<Rightarrow> args_data" where
  "remove_null_args d = (\<lambda>k. if d k = Some VNone then None else d k)"

text \<open>
  \<^verbatim>\<open>run_observation_queries\<close>. Iterating the value of \<^verbatim>\<open>get_observation_queries\<close>
  with \<^verbatim>\<open>for query, table in queries\<close> raises TypeError when that value is a response
  object, which is not iterable. \<^verbatim>\<open>list.sort\<close> is stable, as \<^const>\<open>sort_key\<close> is.
\<close>

definition run_observation_queries ::
    "env \<Rightarrow> (string \<rightharpoonup> string) \<Rightarrow> string list \<Rightarrow> args_data \<Rightarrow> plan \<Rightarrow> error + response" where
  "run_observation_queries e request_args warnings d p =
     (case p of
        Response r \<Rightarrow> Inl TypeError
      | Queries queries \<Rightarrow>
          (let results = run_threads e queries
           in and_then (pop_unless_requested request_args ''nodes'' d) (\<lambda>d1.
              and_then (pop_unless_requested request_args ''features_of_interest'' d1) (\<lambda>d2.
              and_then (pop_unless_requested request_args ''sensors'' d2) (\<lambda>d3.
              let d4 = d3(''geom'' := None)
              in and_then (strip_if_requested request_args ''start_datetime'' d4) (\<lambda>d5.
                 and_then (strip_if_requested request_args ''end_datetime'' d5) (\<lambda>d6.
                 let d7 = remove_null_args d6;
                     display_args = request_query request_args ++ d7;
                     sorted_results = sort_key (\<lambda>x. parse e (ob_datetime x)) results
                 in Inr (json_response_base warnings sorted_results display_args))))))))"

text \<open>
  \<^verbatim>\<open>get_observations\<close> from the point where validation has succeeded (its last two
  lines): the value of the planner is handed to the executor as it is.
\<close>

definition get_observations ::
    "env \<Rightarrow> (string \<rightharpoonup> string) \<Rightarrow> string list \<Rightarrow> args_data \<Rightarrow> error + response" where
  "get_observations e request_args warnings validated =
     and_then (get_observation_queries e request_args validated)
       (\<lambda>(d, observation_queries).
          run_observation_queries e request_args warnings d observation_queries)"

section \<open>The chunked job runner\<close>

text \<open>
  A row of the datadump table. The data of a numbered chunk is a page of formatted
  observations; the data of the closing record is the metadata document
  \<^verbatim>\<open>{"startTime": .., "endTime": .., "workers": .., "features": ..}\<close>.
\<close>

record meta_doc =
  md_startTime :: string
  md_endTime :: string
  md_workers :: "val list"
  md_features :: "string list"

datatype dump_data = Page "observation list" | MetaChunk meta_doc

record datadump =
  dd_id :: val
  dd_request :: val
  dd_part :: nat
  dd_total :: int
  dd_data :: dump_data

record job_status =
  js_startTime :: string
  js_progress :: "(nat \<times> int) option"

text \<open>
  The stores the runner writes: the datadump table with the session's pending rows, the
  job status of each ticket, the flags with their time to live, and the counts of commits
  and of random draws made so far.
\<close>

record world =
  committed :: "datadump list"
  pending :: "datadump list"
  statuses :: "val \<Rightarrow> job_status"
  flags :: "string \<rightharpoonup> (bool \<times> nat)"
  commits :: nat
  draws :: nat

definition session_add :: "world \<Rightarrow> datadump \<Rightarrow> world" where
  "session_add w x = w\<lparr>pending := pending w @ [x]\<rparr>"

definition session_commit :: "env \<Rightarrow> world \<Rightarrow> world \<times> bool" where
  "session_commit e w =
     (if commit_fails e (commits w)
      then (w\<lparr>commits := Suc (commits w)\<rparr>, False)
      else (w\<lparr>committed := committed w @ pending w, pending := [],
               commits := Suc (commits w)\<rparr>, True))"

definition session_rollback :: "world \<Rightarrow> world" where
  "session_rollback w = w\<lparr>pending := []\<rparr>"

definition set_status :: "world \<Rightarrow> val \<Rightarrow> job_status \<Rightarrow> world" where
  "set_status w ticket st = w\<lparr>statuses := (statuses w)(ticket := st)\<rparr>"

definition set_flag :: "world \<Rightarrow> string \<Rightarrow> bool \<Rightarrow> nat \<Rightarrow> world" where
  "set_flag w k v ttl = w\<lparr>flags := (flags w)(k \<mapsto> (v, ttl))\<rparr>"

text \<open>
  \<^verbatim>\<open>store_chunk\<close>: add, commit, and on a failed commit roll back and raise again;
  the status and the flag are written after the commit only.
\<close>

definition store_chunk ::
    "env \<Rightarrow> world \<Rightarrow> observation list \<Rightarrow> int \<Rightarrow> nat \<Rightarrow> val \<Rightarrow> world \<times> (error + unit)" where
  "store_chunk e w chunk chunk_count chunk_number request_id =
     (let datadump_part =
            \<lparr>dd_id = VStr (urandom_hex e (draws w)), dd_request = request_id,
             dd_part = chunk_number, dd_total = chunk_count, dd_data = Page chunk\<rparr>;
          w1 = session_add (w\<lparr>draws := Suc (draws w)\<rparr>) datadump_part
      in case session_commit e w1 of
           (w2, False) \<Rightarrow> (session_rollback w2, Inl CommitError)
         | (w2, True) \<Rightarrow>
             (let status = statuses w2 request_id;
                  w3 = set_status w2 request_id
                         (status\<lparr>js_progress := Some (chunk_number, chunk_count)\<rparr>)
              in case request_id of
                   VStr r \<Rightarrow> (set_flag w3 (r @ ''_suppresscleanup'') True 10800, Inr ())
                 | _ \<Rightarrow> (w3, Inl TypeError)))"

subsection \<open>The float arithmetic of the total\<close>

text \<open>
  \<^verbatim>\<open>row_count / chunk_size\<close> divides an int by the float \<^verbatim>\<open>1000.0\<close>: the int is
  converted to a double, the quotient is rounded to a double, and \<^verbatim>\<open>math.ceil\<close> of it
  is a float holding a whole number. A finite double is \<open>mantissa * 2 ^ exponent\<close> with
  a mantissa of at most 53 bits. Conversion and division round to the nearest double,
  ties to the even mantissa. The quotients met here are 0 or at least 0.001 in
  magnitude, far from the subnormal range, so the exponent is not bounded below.
\<close>

record double =
  mantissa :: int
  exponent :: int

text \<open>The integer nearest to \<open>p / q\<close> for \<open>0 < q\<close>, ties to even.\<close>

definition round_half_even :: "int \<Rightarrow> int \<Rightarrow> int" where
  "round_half_even p q =
     (let f = p div q; r = p mod q
      in if 2 * r < q then f
         else if q < 2 * r then f + 1
         else if even f then f else f + 1)"

text \<open>The fraction \<open>p / (q * 2 ^ s)\<close> for an exponent s of either sign.\<close>

definition shifted :: "int \<Rightarrow> int \<Rightarrow> int \<Rightarrow> int \<times> int" where
  "shifted p q s = (if 0 \<le> s then (p, q * 2 ^ nat s) else (p * 2 ^ nat (- s), q))"

text \<open>The binary exponent of \<open>p / q\<close> for positive p and q: \<open>2 ^ L \<le> p / q < 2 ^ (L + 1)\<close>.\<close>

definition float_exponent :: "int \<Rightarrow> int \<Rightarrow> int" where
  "float_exponent p q =
     (let d = bitlen p - bitlen q
      in case shifted p q d of (p', q') \<Rightarrow> if q' \<le> p' then d else d - 1)"

text \<open>The double nearest to \<open>p / q\<close> for \<open>0 < q\<close>: 53 bits of mantissa are kept.\<close>

definition nearest_double :: "int \<Rightarrow> int \<Rightarrow> double" where
  "nearest_double p q =
     (if p = 0 then \<lparr>mantissa = 0, exponent = 0\<rparr>
      else let e = float_exponent \<bar>p\<bar> q - 52
           in case shifted \<bar>p\<bar> q e of
                (p', q') \<Rightarrow> \<lparr>mantissa = sgn p * round_half_even p' q', exponent = e\<rparr>)"

text \<open>
  The conversion of an int: \<^verbatim>\<open>OverflowError\<close> when the rounded value does not fit the
  exponent range of a double.
\<close>

definition float_of_int :: "int \<Rightarrow> error + double" where
  "float_of_int a =
     (let x = nearest_double a 1
      in if exponent x < 971 then Inr x
         else if 2 ^ 1024 \<le> \<bar>mantissa x\<bar> * 2 ^ nat (exponent x) then Inl OverflowError
         else Inr x)"

text \<open>The quotient of two doubles, the divisor positive.\<close>

definition float_div :: "double \<Rightarrow> double \<Rightarrow> double" where
  "float_div x y =
     (case shifted (mantissa x) (mantissa y) (exponent y - exponent x) of
        (p, q) \<Rightarrow> nearest_double p q)"

text \<open>\<^verbatim>\<open>math.ceil\<close>: the least whole number not below the double.\<close>

definition float_ceil :: "double \<Rightarrow> int" where
  "float_ceil x =
     (if 0 \<le> exponent x then mantissa x * 2 ^ nat (exponent x)
      else - ((- mantissa x) div 2 ^ nat (- exponent x)))"

definition chunk_size :: double where
  "chunk_size = \<lparr>mantissa = 1000, exponent = 0\<rparr>"

text \<open>
  The total: \<^verbatim>\<open>math.ceil(row_count / chunk_size)\<close> of the summed counts, or of the
  limit when \<^verbatim>\<open>args.data.get("limit")\<close> is truthy.
\<close>

definition chunk_count :: "env \<Rightarrow> args_data \<Rightarrow> (query \<times> table) list \<Rightarrow> error + int" where
  "chunk_count e d observation_queries =
     (let counted = sum_list (map (\<lambda>(q, t). fast_count e q) observation_queries);
          limit = data_get d ''limit''
      in and_then (if truthy limit
                   then (case limit of VInt l \<Rightarrow> Inr l | _ \<Rightarrow> Inl TypeError)
                   else Inr counted)
           (\<lambda>row_count.
              and_then (float_of_int row_count)
                (\<lambda>x. Inr (float_ceil (float_div x chunk_size)))))"

text \<open>
  The inner loop over the rows of one table and the outer loop over the tables. The
  state is the page buffer, the next chunk number and, in the outer loop, the set of
  feature names met so far.
\<close>

fun drain_rows ::
    "env \<Rightarrow> int \<Rightarrow> val \<Rightarrow> table \<Rightarrow> obs_row list \<Rightarrow> world \<times> observation list \<times> nat
       \<Rightarrow> world \<times> (error + observation list \<times> nat)" where
  "drain_rows e n_chunks request_id tbl [] (w, chunk, chunk_number) = (w, Inr (chunk, chunk_number))"
| "drain_rows e n_chunks request_id tbl (row # rows) (w, chunk, chunk_number) =
     (let chunk' = chunk @ [format_observation e row tbl]
      in if length chunk' > 1000
         then (case store_chunk e w chunk' n_chunks chunk_number request_id of
                 (w', Inl err) \<Rightarrow> (w', Inl err)
               | (w', Inr u) \<Rightarrow> drain_rows e n_chunks request_id tbl rows (w', [], chunk_number + 1))
         else drain_rows e n_chunks request_id tbl rows (w, chunk', chunk_number))"

fun drain_queries ::
    "env \<Rightarrow> int \<Rightarrow> val \<Rightarrow> (query \<times> table) list
       \<Rightarrow> world \<times> observation list \<times> nat \<times> string list
       \<Rightarrow> world \<times> (error + observation list \<times> nat \<times> string list)" where
  "drain_queries e n_chunks request_id [] (w, chunk, chunk_number, features) =
     (w, Inr (chunk, chunk_number, features))"
| "drain_queries e n_chunks request_id ((q, tbl) # queries) (w, chunk, chunk_number, features) =
     (let features' = List.insert (lower (t_name tbl)) features
      in case drain_rows e n_chunks request_id tbl (windowed_query e q) (w, chunk, chunk_number) of
           (w', Inl err) \<Rightarrow> (w', Inl err)
         | (w', Inr (chunk', chunk_number')) \<Rightarrow>
             drain_queries e n_chunks request_id queries (w', chunk', chunk_number', features'))"

text \<open>The closing record \<^verbatim>\<open>DataDump(request_id, request_id, 0, chunk_count, meta_chunk)\<close>.\<close>

definition meta_dump :: "env \<Rightarrow> world \<Rightarrow> val \<Rightarrow> int \<Rightarrow> val \<Rightarrow> string list \<Rightarrow> datadump" where
  "meta_dump e w request_id n_chunks worker features =
     \<lparr>dd_id = request_id, dd_request = request_id, dd_part = 0, dd_total = n_chunks,
      dd_data = MetaChunk \<lparr>md_startTime = js_startTime (statuses w request_id),
                           md_endTime = clock_now e,
                           md_workers = [worker],
                           md_features = features\<rparr>\<rparr>"

text \<open>
  The body of \<^verbatim>\<open>get_observation_datadump\<close> in its three parts. First the two loops
  and the write of the last, partial page; the value is the set of feature names.
\<close>

definition write_chunks ::
    "env \<Rightarrow> int \<Rightarrow> val \<Rightarrow> (query \<times> table) list \<Rightarrow> world \<Rightarrow> world \<times> (error + string list)" where
  "write_chunks e n_chunks request_id observation_queries w =
     (case drain_queries e n_chunks request_id observation_queries (w, [], 1, []) of
        (w1, Inl err) \<Rightarrow> (w1, Inl err)
      | (w1, Inr (chunk, chunk_number, features)) \<Rightarrow>
          (case (if length chunk > 0
                 then store_chunk e w1 chunk n_chunks chunk_number request_id
                 else (w1, Inr ())) of
             (w2, Inl err) \<Rightarrow> (w2, Inl err)
           | (w2, Inr u) \<Rightarrow> (w2, Inr features)))"

text \<open>
  Then the closing record: the document is formatted (the worker id is read with
  \<^verbatim>\<open>args.data[..]\<close>), the record is added and committed, and on a failed commit the
  session is rolled back and the exception raised again.
\<close>

definition write_meta_chunk ::
    "env \<Rightarrow> args_data \<Rightarrow> val \<Rightarrow> int \<Rightarrow> string list \<Rightarrow> world \<Rightarrow> world \<times> (error + unit)" where
  "write_meta_chunk e d request_id n_chunks features w =
     (case data_item d ''jobsframework_workerid'' of
        Inl err \<Rightarrow> (w, Inl err)
      | Inr worker \<Rightarrow>
          (let dump = meta_dump e w request_id n_chunks worker features
           in case session_commit e (session_add w dump) of
                (w1, False) \<Rightarrow> (session_rollback w1, Inl CommitError)
              | (w1, True) \<Rightarrow> (w1, Inr ())))"

text \<open>
  The whole function. The planner's value is looped over as it is, so a response object
  in its place raises TypeError; the total is computed before the first write.
\<close>

definition get_observation_datadump ::
    "env \<Rightarrow> (string \<rightharpoonup> string) \<Rightarrow> world \<Rightarrow> args_data \<Rightarrow> world \<times> (error + string)" where
  "get_observation_datadump e request_args w d0 =
     (let request_id = data_get d0 ''jobsframework_ticket''
      in case get_observation_queries e request_args d0 of
           Inl err \<Rightarrow> (w, Inl err)
         | Inr (d, Response r) \<Rightarrow> (w, Inl TypeError)
         | Inr (d, Queries observation_queries) \<Rightarrow>
             (case chunk_count e d observation_queries of
                Inl err \<Rightarrow> (w, Inl err)
              | Inr n_chunks \<Rightarrow>
                  (case write_chunks e n_chunks request_id observation_queries w of
                     (w1, Inl err) \<Rightarrow> (w1, Inl err)
                   | (w1, Inr features) \<Rightarrow>
                       (case write_meta_chunk e d request_id n_chunks features w1 of
                          (w2, Inl err) \<Rightarrow> (w2, Inl err)
                        | (w2, Inr u) \<Rightarrow>
                            (case (data_item d ''datadump_urlroot'', request_id) of
                               (Inr (VStr urlroot), VStr r) \<Rightarrow>
                                 (w2, Inr (urlroot @ ''v1/api/datadump/'' @ r))
                             | (Inl err, _) \<Rightarrow> (w2, Inl err)
                             | _ \<Rightarrow> (w2, Inl TypeError))))))"

text \<open>
  What the progress record of a ticket may say: with \<open>done = k\<close>, the chunks 1 to k of
  the ticket are committed. And the same for the chunks below the next chunk number.
\<close>

definition parts_below :: "world \<Rightarrow> val \<Rightarrow> nat \<Rightarrow> bool" where
  "parts_below w request_id k =
     (\<forall>p \<in> {1..<k}. \<exists>c \<in> set (committed w). dd_request c = request_id \<and> dd_part c = p)"

definition progress_sound :: "world \<Rightarrow> val \<Rightarrow> bool" where
  "progress_sound w request_id =
     (case js_progress (statuses w request_id) of
        None \<Rightarrow> True
      | Some (done, n) \<Rightarrow> parts_below w request_id (Suc done))"

text \<open>
  What a run of writes guarantees, from a state w with next chunk number k to a state w'
  with either an exception or the next chunk number: the session is clean, the committed
  rows are the old ones followed by new rows of this ticket with this total, numbered from
  k without a gap when no exception came; every commit that succeeded added one row and
  a commit that failed ended the run with \<open>CommitError\<close>; the start times are as they
  were; and the progress is either unchanged or names a chunk that is committed with all
  chunks from k up to it.
\<close>

definition step_post ::
    "env \<Rightarrow> int \<Rightarrow> val \<Rightarrow> world \<Rightarrow> nat \<Rightarrow> world \<Rightarrow> error + nat \<Rightarrow> bool" where
  "step_post e n request_id w k w' res =
     (pending w' = []
    \<and> commits w \<le> commits w'
    \<and> (\<exists>cs. committed w' = committed w @ cs
          \<and> (\<forall>c \<in> set cs. dd_total c = n \<and> dd_request c = request_id \<and> k \<le> dd_part c
                \<and> (\<exists>page. dd_data c = Page page))
          \<and> (\<forall>k'. res = Inr k' \<longrightarrow> map dd_part cs = [k..<k'])
          \<and> (js_progress (statuses w' request_id) = js_progress (statuses w request_id)
               \<or> (\<exists>j. js_progress (statuses w' request_id) = Some (j, n) \<and> k \<le> j
                       \<and> (\<forall>p. k \<le> p \<and> p \<le> j \<longrightarrow> p \<in> dd_part ` set cs))))
    \<and> length (committed w')
        = length (committed w)
          + length (filter (\<lambda>i. \<not> commit_fails e i) [commits w..<commits w'])
    \<and> (\<forall>i. commits w \<le> i \<and> i < commits w' \<and> commit_fails e i
           \<longrightarrow> res = Inl CommitError \<and> commits w' = Suc i)
    \<and> (\<forall>t. js_startTime (statuses w' t) = js_startTime (statuses w t))
    \<and> (\<forall>k'. res = Inr k' \<longrightarrow> k \<le> k'))"

section \<open>A small network to run the definitions on\<close>

text \<open>
  Two nodes, two sensors and two feature tables. The temperature table and the humidity
  table each hold a reading taken at the same instant. The clock texts are those of three
  instants of one day.
\<close>

definition demo_isoformat :: "int \<Rightarrow> string" where
  "demo_isoformat ts =
     (if ts = 10 then ''2016-01-01T00:00:10''
      else if ts = 20 then ''2016-01-01T00:00:20''
      else ''2016-01-01T00:00:00'')"

definition demo_parse :: "string \<Rightarrow> int" where
  "demo_parse s =
     (if s = ''2016-01-01T00:00:10'' then 10
      else if s = ''2016-01-01T00:00:20'' then 20
      else if s = ''2016-01-02T00:00:00'' then 86400
      else 0)"

definition temperature_table :: table where
  "temperature_table =
     \<lparr>t_name = ''temperature'',
      t_columns = [''node_id'', ''datetime'', ''meta_id'', ''sensor'', ''temperature''],
      t_rows = [\<lparr>o_node_id = ''node_a'', o_datetime = 10, o_meta_id = 1, o_sensor = ''tmp112'',
                 o_values = [(''temperature'', VInt 21)]\<rparr>,
                \<lparr>o_node_id = ''node_b'', o_datetime = 20, o_meta_id = 1, o_sensor = ''tmp112'',
                 o_values = [(''temperature'', VInt 19)]\<rparr>]\<rparr>"

definition humidity_table :: table where
  "humidity_table =
     \<lparr>t_name = ''humidity'',
      t_columns = [''node_id'', ''datetime'', ''meta_id'', ''sensor'', ''humidity''],
      t_rows = [\<lparr>o_node_id = ''node_a'', o_datetime = 10, o_meta_id = 1, o_sensor = ''hih4030'',
                 o_values = [(''humidity'', VInt 40)]\<rparr>]\<rparr>"

definition demo_env :: env where
  "demo_env =
     \<lparr>node_table = [\<lparr>nm_id = ''node_a'', nm_sensor_network = ''aot'', nm_location = ''inside''\<rparr>,
                    \<lparr>nm_id = ''node_b'', nm_sensor_network = ''aot'', nm_location = ''outside''\<rparr>],
      sensor_table = [\<lparr>sm_name = ''tmp112'',
                        sm_observed_properties = [(''temp'', ''temperature.temperature'')]\<rparr>,
                      \<lparr>sm_name = ''hih4030'',
                        sm_observed_properties = [(''hum'', ''humidity.humidity'')]\<rparr>],
      warehouse = [''temperature'' \<mapsto> temperature_table, ''humidity'' \<mapsto> humidity_table],
      st_within = (\<lambda>location geojson. location = ''inside''),
      isoformat = demo_isoformat,
      parse = demo_parse,
      db_timestamp = demo_parse,
      fast_count = (\<lambda>q. int (length (t_rows (q_table q)))),
      windowed_query = (\<lambda>q. t_rows (q_table q)),
      schedule = [],
      commit_fails = (\<lambda>n. False),
      urandom_hex = (\<lambda>n. replicate (Suc n) (CHR ''a'')),
      clock_now = ''2016-06-01 12:00:00''\<rparr>"

definition demo_request :: "string \<rightharpoonup> string" where
  "demo_request =
     [''features_of_interest'' \<mapsto> ''temperature,humidity'',
      ''start_datetime'' \<mapsto> ''2016-01-01T00:00:00'',
      ''end_datetime'' \<mapsto> ''2016-01-02T00:00:00'']"

definition demo_args :: args_data where
  "demo_args =
     [''network_name'' \<mapsto> VStr ''aot'',
      ''nodes'' \<mapsto> VNone,
      ''features_of_interest'' \<mapsto> VList [''temperature'', ''humidity''],
      ''sensors'' \<mapsto> VList [''tmp112'', ''hih4030''],
      ''start_datetime'' \<mapsto> VStr ''2016-01-01T00:00:00'',
      ''end_datetime'' \<mapsto> VStr ''2016-01-02T00:00:00'',
      ''limit'' \<mapsto> VInt 1000,
      ''offset'' \<mapsto> VInt 0]"

definition demo_job_args :: args_data where
  "demo_job_args =
     demo_args(''limit'' \<mapsto> VInt 2500,
               ''jobsframework_ticket'' \<mapsto> VStr ''ticket1'',
               ''jobsframework_workerid'' \<mapsto> VStr ''worker1'',
               ''datadump_urlroot'' \<mapsto> VStr ''http://plenar.io/'')"

definition demo_world :: world where
  "demo_world =
     \<lparr>committed = [], pending = [],
      statuses = (\<lambda>ticket. \<lparr>js_startTime = ''2016-06-01 11:59:00'', js_progress = None\<rparr>),
      flags = Map.empty, commits = 0, draws = 0\<rparr>"

text \<open>The query the planner builds for a table of the small network, given an offset.\<close>

definition demo_query :: "table \<Rightarrow> int option \<Rightarrow> query" where
  "demo_query tbl off =
     \<lparr>q_table = tbl,
      q_start = Some ''2016-01-01T00:00:00'',
      q_end = Some ''2016-01-02T00:00:00'',
      q_nodes = Some [''node_a'', ''node_b''],
      q_sensors = Some [''tmp112'', ''hih4030''],
      q_limit = 500,
      q_offset = off\<rparr>"

section \<open>Auxiliary facts\<close>

lemma and_then_eq_Inr: "and_then r f = Inr y \<longleftrightarrow> (\<exists>x. r = Inr x \<and> f x = Inr y)"
  by (cases r) (simp_all add: and_then_def)

lemma traverse_length: "traverse f xs = Inr ys \<Longrightarrow> length ys = length xs"
  by (induction xs arbitrary: ys) (auto split: sum.splits)

lemma traverse_member:
  "traverse f xs = Inr ys \<Longrightarrow> y \<in> set ys \<Longrightarrow> \<exists>x \<in> set xs. f x = Inr y"
  by (induction xs arbitrary: ys) (auto split: sum.splits)

lemma observation_query_fields:
  assumes "observation_query d n t = Inr q"
  shows "q_table q = t"
    and "d ''limit'' = Some (VInt L) \<Longrightarrow> q_limit q = L div int n"
    and "d ''offset'' = Some (VInt off) \<Longrightarrow>
           q_offset q = (if off \<noteq> 0 then Some (off div int n) else None)"
    and "d ''start_datetime'' = Some (VStr s) \<Longrightarrow> q_start q = Some s"
    and "d ''end_datetime'' = Some (VStr en) \<Longrightarrow> q_end q = Some en"
  using assms
  by (auto simp: observation_query_def and_then_def data_get_def data_item_def Let_def
           split: sum.splits if_splits)

lemma get_observation_queries_cases:
  assumes "get_observation_queries e ra d0 = Inr (d', p)"
  obtains sd ed fs where
    "strip_offset (data_get d0 ''start_dt'') = Inr sd"
    "strip_offset (data_get d0 ''end_dt'') = Inr ed"
    "d' = planner_data e d0 sd ed"
    "candidate_features e d' = Inr fs"
    "(case load_tables e ra fs [] of
        Inl resp \<Rightarrow> Inr (Response resp)
      | Inr tables \<Rightarrow>
          and_then (traverse (\<lambda>t. map_sum id (\<lambda>q. (q, t))
                                     (observation_query d' (length tables) t)) tables)
            (\<lambda>qs. Inr (Queries qs))) = Inr p"
proof -
  from assms obtain sd ed fs where
    1: "strip_offset (data_get d0 ''start_dt'') = Inr sd"
    and 2: "strip_offset (data_get d0 ''end_dt'') = Inr ed"
    and 3: "candidate_features e (planner_data e d0 sd ed) = Inr fs"
    and 4: "(case load_tables e ra fs [] of
        Inl resp \<Rightarrow> Inr (planner_data e d0 sd ed, Response resp)
      | Inr tables \<Rightarrow>
          and_then (traverse (\<lambda>t. map_sum id (\<lambda>q. (q, t))
                      (observation_query (planner_data e d0 sd ed) (length tables) t)) tables)
            (\<lambda>qs. Inr (planner_data e d0 sd ed, Queries qs))) = Inr (d', p)"
    unfolding get_observation_queries_def planner_data_def Let_def and_then_eq_Inr
    by blast
  from 4 have 5: "d' = planner_data e d0 sd ed"
    by (auto simp: and_then_eq_Inr split: sum.splits)
  from 4 have "(case load_tables e ra fs [] of
        Inl resp \<Rightarrow> Inr (Response resp)
      | Inr tables \<Rightarrow>
          and_then (traverse (\<lambda>t. map_sum id (\<lambda>q. (q, t))
                                     (observation_query d' (length tables) t)) tables)
            (\<lambda>qs. Inr (Queries qs))) = Inr p"
    unfolding 5 by (auto simp: and_then_eq_Inr split: sum.splits)
  with 1 2 3 5 show thesis using that by blast
qed

lemma planner_data_other:
  "k \<notin> {''start_dt'', ''end_dt'', ''nodes''} \<Longrightarrow> planner_data e d0 sd ed k = d0 k"
  by (simp add: planner_data_def Let_def)

lemma get_observation_queries_QueriesD:
  assumes "get_observation_queries e ra d0 = Inr (d', Queries qs)"
  obtains tables fs where
    "traverse (\<lambda>t. map_sum id (\<lambda>q. (q, t)) (observation_query d' (length tables) t)) tables
       = Inr qs"
    "candidate_features e d' = Inr fs"
    "load_tables e ra fs [] = Inr tables"
    "\<forall>k. k \<notin> {''start_dt'', ''end_dt'', ''nodes''} \<longrightarrow> d' k = d0 k"
proof -
  from assms obtain sd ed fs where
    d': "d' = planner_data e d0 sd ed"
    and fs: "candidate_features e d' = Inr fs"
    and rest: "(case load_tables e ra fs [] of
        Inl resp \<Rightarrow> Inr (Response resp)
      | Inr tables \<Rightarrow>
          and_then (traverse (\<lambda>t. map_sum id (\<lambda>q. (q, t))
                                     (observation_query d' (length tables) t)) tables)
            (\<lambda>qs. Inr (Queries qs))) = Inr (Queries qs)"
    by (rule get_observation_queries_cases)
  from rest obtain tables where
    "load_tables e ra fs [] = Inr tables"
    "traverse (\<lambda>t. map_sum id (\<lambda>q. (q, t)) (observation_query d' (length tables) t)) tables
       = Inr qs"
    by (auto simp: and_then_eq_Inr split: sum.splits)
  moreover have "\<forall>k. k \<notin> {''start_dt'', ''end_dt'', ''nodes''} \<longrightarrow> d' k = d0 k"
    unfolding d' using planner_data_other by blast
  ultimately show thesis using fs that by blast
qed

lemma plan_queries_Some:
  "plan_queries r = Some qs \<longleftrightarrow> (\<exists>d. r = Inr (d, Queries qs))"
  by (auto simp: plan_queries_def split: sum.splits plan.splits)

lemma planned_query:
  assumes "get_observation_queries e ra d0 = Inr (d', Queries qs)" and "(q, t) \<in> set qs"
  obtains tables fs where
    "observation_query d' (length qs) t = Inr q"
    "candidate_features e d' = Inr fs"
    "load_tables e ra fs [] = Inr tables"
    "t \<in> set tables"
    "length tables = length qs"
    "\<forall>k. k \<notin> {''start_dt'', ''end_dt'', ''nodes''} \<longrightarrow> d' k = d0 k"
proof -
  from assms(1) obtain tables fs where
    tr: "traverse (\<lambda>t. map_sum id (\<lambda>q. (q, t)) (observation_query d' (length tables) t)) tables
           = Inr qs"
    and fs: "candidate_features e d' = Inr fs"
    and lt: "load_tables e ra fs [] = Inr tables"
    and same: "\<forall>k. k \<notin> {''start_dt'', ''end_dt'', ''nodes''} \<longrightarrow> d' k = d0 k"
    by (rule get_observation_queries_QueriesD)
  have len: "length qs = length tables" using tr by (rule traverse_length)
  from traverse_member [OF tr assms(2)] obtain t' where t': "t' \<in> set tables" and
    "map_sum id (\<lambda>q. (q, t')) (observation_query d' (length tables) t') = Inr (q, t)"
    by blast
  then have "observation_query d' (length tables) t = Inr q \<and> t' = t"
    by (cases "observation_query d' (length tables) t'") auto
  with len t' fs lt same show thesis using that by simp
qed

section \<open>Claims\<close>

text \<open>
  C6. When the planner resolves N tables for a request with limit L and offset O, each of
  the N queries has limit \<open>L div N\<close> (Python 2 floor division), and has the offset
  \<open>O div N\<close> exactly when O is not zero; with O zero no offset is set.
\<close>

theorem per_table_limit_offset:
  assumes "plan_queries (get_observation_queries e ra d) = Some qs"
      and "d ''limit'' = Some (VInt L)"
      and "d ''offset'' = Some (VInt off)"
      and "(q, t) \<in> set qs"
  shows "q_table q = t \<and> q_limit q = L div int (length qs) \<and>
         q_offset q = (if off \<noteq> 0 then Some (off div int (length qs)) else None)"
proof -
  from assms(1) obtain d' where "get_observation_queries e ra d = Inr (d', Queries qs)"
    unfolding plan_queries_Some by blast
  from this assms(4) obtain
    oq: "observation_query d' (length qs) t = Inr q" and
    same: "\<forall>k. k \<notin> {''start_dt'', ''end_dt'', ''nodes''} \<longrightarrow> d' k = d k"
    by (rule planned_query)
  have "d' ''limit'' = Some (VInt L)" "d' ''offset'' = Some (VInt off)"
    using same assms(2,3) by simp_all
  with observation_query_fields(1-3) [OF oq] show ?thesis by simp
qed

theorem per_table_limit_offset_witness:
  "plan_queries (get_observation_queries demo_env demo_request (demo_args(''offset'' \<mapsto> VInt 11)))
     = Some [(demo_query temperature_table (Some 5), temperature_table),
             (demo_query humidity_table (Some 5), humidity_table)]
   \<and> q_limit (demo_query temperature_table (Some 5)) = 1000 div 2
   \<and> q_offset (demo_query temperature_table (Some 5)) = Some (11 div 2)"
proof -
  let ?d = "demo_args(''offset'' \<mapsto> VInt 11)"
  let ?qs = "[(demo_query temperature_table (Some 5), temperature_table),
              (demo_query humidity_table (Some 5), humidity_table)]"
  have h1: "plan_queries (get_observation_queries demo_env demo_request ?d) = Some ?qs"
    by code_simp
  have h2: "?d ''limit'' = Some (VInt 1000)" by (simp add: demo_args_def)
  have h3: "?d ''offset'' = Some (VInt 11)" by simp
  have h4: "(demo_query temperature_table (Some 5), temperature_table) \<in> set ?qs" by simp
  from per_table_limit_offset [OF h1 h2 h3 h4] h1 show ?thesis by simp
qed

lemma mset_concat_update:
  assumes "i < length rows" and "rows ! i = x # rest"
  shows "mset (concat rows) = add_mset x (mset (concat (rows[i := rest])))"
proof -
  have "rows = take i rows @ (x # rest) # drop (Suc i) rows"
    using assms by (metis id_take_nth_drop)
  moreover have "rows[i := rest] = take i rows @ rest # drop (Suc i) rows"
    using assms(1) by (rule upd_conv_take_nth_drop)
  ultimately have "concat rows = concat (take i rows) @ (x # rest) @ concat (drop (Suc i) rows)"
    and "concat (rows[i := rest]) = concat (take i rows) @ rest @ concat (drop (Suc i) rows)"
    by (metis concat.simps(2) concat_append)+
  then show ?thesis by simp
qed

lemma mset_interleave: "mset (interleave sched rows) = mset (concat rows)"
proof (induction sched arbitrary: rows)
  case Nil
  then show ?case by simp
next
  case (Cons i sched)
  show ?case
  proof (cases "i < length rows")
    case False
    with Cons show ?thesis by simp
  next
    case True
    show ?thesis
    proof (cases "rows ! i")
      case Nil
      with True Cons show ?thesis by simp
    next
      case (Cons x rest)
      with True Cons.IH [of "rows[i := rest]"] mset_concat_update [OF True Cons]
      show ?thesis by simp
    qed
  qed
qed

lemma mset_run_threads:
  "mset (run_threads e qs) = mset (concat (map (\<lambda>(q, t). fetch_query_results e [] q t) qs))"
  by (simp add: run_threads_def mset_interleave)

lemma set_run_threads:
  "set (run_threads e qs) = (\<Union>(q, t) \<in> set qs. set (fetch_query_results e [] q t))"
proof -
  have "set (run_threads e qs)
          = set (concat (map (\<lambda>(q, t). fetch_query_results e [] q t) qs))"
    using mset_run_threads [of e qs] by (rule mset_eq_setD)
  then show ?thesis by auto
qed

lemma fetched_row:
  assumes "x \<in> set (fetch_query_results e [] q t)"
  obtains row where "row \<in> set (t_rows (q_table q))" "row_matches e q row"
    "x = format_observation e row t"
proof (cases "query_all e q")
  case (Inl err)
  with assms show thesis by (simp add: fetch_query_results_def)
next
  case (Inr rows)
  with assms obtain row where row: "row \<in> set rows" and x: "x = format_observation e row t"
    by (auto simp: fetch_query_results_def)
  from Inr have "set rows \<subseteq> set (filter (row_matches e q) (t_rows (q_table q)))"
    by (auto simp: query_all_def Let_def split: if_splits dest!: in_set_takeD in_set_dropD)
  with row x show thesis using that by auto
qed

lemma load_tables_ran:
  "load_tables e ra fs acc = Inr tables \<Longrightarrow> t \<in> set tables \<Longrightarrow>
     t \<in> set acc \<or> (\<exists>name. warehouse e name = Some t)"
proof (induction fs arbitrary: acc)
  case Nil
  then show ?case by simp
next
  case (Cons f fs)
  from Cons.prems(1) obtain t' where w: "warehouse e (lower f) = Some t'"
    and rest: "load_tables e ra fs (acc @ [t']) = Inr tables"
    by (auto simp: Let_def split: option.splits)
  from Cons.IH [OF rest Cons.prems(2)] w show ?case by auto
qed

lemma run_observation_queries_objects:
  assumes "run_observation_queries e ra ws d (Queries qs) = Inr r"
  shows "objects r = sort_key (\<lambda>x. parse e (ob_datetime x)) (run_threads e qs)"
  using assms
  by (auto simp: run_observation_queries_def Let_def and_then_eq_Inr json_response_base_def)

lemma get_observations_cases:
  assumes "get_observations e ra ws d = Inr r"
  obtains d' qs where "get_observation_queries e ra d = Inr (d', Queries qs)"
    "run_observation_queries e ra ws d' (Queries qs) = Inr r"
proof -
  from assms obtain d' p where 1: "get_observation_queries e ra d = Inr (d', p)"
    and 2: "run_observation_queries e ra ws d' p = Inr r"
    by (auto simp: get_observations_def and_then_eq_Inr)
  from 2 obtain qs where "p = Queries qs"
    by (cases p) (auto simp: run_observation_queries_def)
  with 1 2 show thesis using that by blast
qed

text \<open>
  C5. With start and end datetimes given, every record of the response carries a datetime
  text that reads back as an instant in the half-open interval from start (inclusive) to
  end (exclusive), the bounds being read by the warehouse. The texts are those of naive
  timestamps: for the rows of the warehouse, reading the text of a timestamp gives the
  timestamp back.
\<close>

theorem returned_datetime_in_range:
  assumes "get_observations e ra ws d = Inr r"
      and "d ''start_datetime'' = Some (VStr s)"
      and "d ''end_datetime'' = Some (VStr en)"
      and "\<forall>name t row. warehouse e name = Some t \<and> row \<in> set (t_rows t) \<longrightarrow>
             parse e (split_first (CHR ''+'') (isoformat e (o_datetime row))) = o_datetime row"
      and "x \<in> set (objects r)"
  shows "db_timestamp e s \<le> parse e (ob_datetime x) \<and> parse e (ob_datetime x) < db_timestamp e en"
proof -
  from assms(1) obtain d' qs where
    plan: "get_observation_queries e ra d = Inr (d', Queries qs)"
    and run: "run_observation_queries e ra ws d' (Queries qs) = Inr r"
    by (rule get_observations_cases)
  from assms(5) have "x \<in> set (run_threads e qs)"
    unfolding run_observation_queries_objects [OF run] by simp
  then obtain q t where qt: "(q, t) \<in> set qs" and x: "x \<in> set (fetch_query_results e [] q t)"
    unfolding set_run_threads by auto
  from plan qt obtain tables fs where
    oq: "observation_query d' (length qs) t = Inr q"
    and lt: "load_tables e ra fs [] = Inr tables"
    and t: "t \<in> set tables"
    and same: "\<forall>k. k \<notin> {''start_dt'', ''end_dt'', ''nodes''} \<longrightarrow> d' k = d k"
    by (rule planned_query)
  have "d' ''start_datetime'' = Some (VStr s)" "d' ''end_datetime'' = Some (VStr en)"
    using same assms(2,3) by simp_all
  with observation_query_fields [OF oq]
  have q: "q_table q = t" "q_start q = Some s" "q_end q = Some en" by simp_all
  from x obtain row where row: "row \<in> set (t_rows t)" and m: "row_matches e q row"
    and fx: "x = format_observation e row t"
    using q(1) by (auto elim: fetched_row)
  from load_tables_ran [OF lt t] obtain name where "warehouse e name = Some t" by auto
  with assms(4) row have "parse e (ob_datetime x) = o_datetime row"
    unfolding fx by (auto simp: format_observation_def)
  with m q show ?thesis by (simp add: row_matches_def)
qed

lemma demo_roundtrip:
  "\<forall>name t row. warehouse demo_env name = Some t \<and> row \<in> set (t_rows t) \<longrightarrow>
      parse demo_env (split_first (CHR ''+'') (isoformat demo_env (o_datetime row)))
        = o_datetime row"
proof (intro allI impI)
  fix name t row
  assume a: "warehouse demo_env name = Some t \<and> row \<in> set (t_rows t)"
  then have "t = temperature_table \<or> t = humidity_table"
    by (simp add: demo_env_def split: if_splits)
  with a have "o_datetime row = 10 \<or> o_datetime row = 20"
    by (auto simp: temperature_table_def humidity_table_def)
  moreover have "demo_parse (split_first (CHR ''+'') (demo_isoformat 10)) = 10"
    by code_simp
  moreover have "demo_parse (split_first (CHR ''+'') (demo_isoformat 20)) = 20"
    by code_simp
  ultimately show "parse demo_env (split_first (CHR ''+'') (isoformat demo_env (o_datetime row)))
        = o_datetime row"
    by (auto simp: demo_env_def)
qed

theorem returned_datetime_in_range_witness:
  "map_sum id (map ob_datetime \<circ> objects) (get_observations demo_env demo_request [] demo_args)
     = Inr [''2016-01-01T00:00:10'', ''2016-01-01T00:00:10'', ''2016-01-01T00:00:20'']
   \<and> demo_parse ''2016-01-01T00:00:00'' \<le> demo_parse ''2016-01-01T00:00:20''
   \<and> demo_parse ''2016-01-01T00:00:20'' < demo_parse ''2016-01-02T00:00:00''"
proof -
  have ev: "map_sum id (map ob_datetime \<circ> objects)
              (get_observations demo_env demo_request [] demo_args)
            = Inr [''2016-01-01T00:00:10'', ''2016-01-01T00:00:10'', ''2016-01-01T00:00:20'']"
    by code_simp
  then obtain r where r: "get_observations demo_env demo_request [] demo_args = Inr r"
    and obs: "map ob_datetime (objects r)
                = [''2016-01-01T00:00:10'', ''2016-01-01T00:00:10'', ''2016-01-01T00:00:20'']"
    by (cases "get_observations demo_env demo_request [] demo_args") auto
  from obs obtain a b x where abx: "objects r = [a, b, x]"
    and dt: "ob_datetime x = ''2016-01-01T00:00:20''"
    by (auto simp: map_eq_Cons_conv)
  then have x: "x \<in> set (objects r)" by simp
  have h2: "demo_args ''start_datetime'' = Some (VStr ''2016-01-01T00:00:00'')"
    by (simp add: demo_args_def)
  have h3: "demo_args ''end_datetime'' = Some (VStr ''2016-01-02T00:00:00'')"
    by (simp add: demo_args_def)
  from returned_datetime_in_range [OF r h2 h3 demo_roundtrip x] dt ev show ?thesis
    by (simp add: demo_env_def)
qed




text \<open>
  C1, on the code. The small network without the humidity table, and a request for
  temperature and humidity. The planner returns the 400 response that names the table,
  as a value; the query endpoint hands that value to the executor, whose loop over it
  raises TypeError, so the request ends in an unhandled exception and not in the 400
  response. The job runner raises the same TypeError before it writes anything.
\<close>

theorem missing_table_response_is_iterated:
  "(case get_observation_queries (demo_env\<lparr>warehouse := [''temperature'' \<mapsto> temperature_table]\<rparr>)
           demo_request demo_args
    of Inr (d, Response resp) \<Rightarrow>
         status_code resp = 400 \<and> meta_message resp = VStr ''Table humidity not found''
     | _ \<Rightarrow> False)
   \<and> (case get_observations (demo_env\<lparr>warehouse := [''temperature'' \<mapsto> temperature_table]\<rparr>)
           demo_request [] demo_args
      of Inl err \<Rightarrow> err = TypeError | Inr r \<Rightarrow> False)
   \<and> (case get_observation_datadump
             (demo_env\<lparr>warehouse := [''temperature'' \<mapsto> temperature_table]\<rparr>)
             demo_request demo_world demo_job_args
      of (w, out) \<Rightarrow> out = Inl TypeError \<and> committed w = [] \<and> pending w = [])"
  by code_simp














lemma row_matches_schedule: "row_matches (e\<lparr>schedule := s\<rparr>) q = row_matches e q"
  by (rule ext) (simp add: row_matches_def cong: option.case_cong)

lemma format_observation_schedule:
  "format_observation (e\<lparr>schedule := s\<rparr>) obs t = format_observation e obs t"
  by (simp add: format_observation_def)

lemma fetch_query_results_schedule:
  "fetch_query_results (e\<lparr>schedule := s\<rparr>) data q t = fetch_query_results e data q t"
  by (simp add: fetch_query_results_def query_all_def Let_def row_matches_schedule
        format_observation_schedule cong: sum.case_cong)

lemma run_threads_mset:
  assumes "mset qs' = mset qs"
  shows "mset (run_threads (e\<lparr>schedule := s\<rparr>) qs') = mset (run_threads e qs)"
proof -
  let ?g = "\<lambda>(q, t). mset (fetch_query_results e [] q t)"
  have "mset (concat (map (\<lambda>(q, t). fetch_query_results e [] q t) xs))
          = sum_mset (image_mset ?g (mset xs))" for xs
    unfolding mset_concat by (induction xs) (auto simp: case_prod_beta)
  with assms show ?thesis
    by (simp add: mset_run_threads fetch_query_results_schedule)
qed

lemma sort_key_keys_mset:
  assumes "mset xs = mset ys"
  shows "map f (sort_key f xs) = map f (sort_key f ys)"
proof -
  have "map f (sort_key f zs) = sorted_list_of_multiset (image_mset f (mset zs))" for zs
  proof -
    have "sort (map f (sort_key f zs)) = map f (sort_key f zs)"
      by (rule sorted_sort_id) simp
    then show ?thesis
      by (metis mset_map mset_sort sorted_list_of_multiset_mset)
  qed
  with assms show ?thesis by simp
qed

lemma run_observation_queries_other_order:
  assumes "run_observation_queries e ra ws d (Queries qs) = Inr r"
  shows "run_observation_queries (e\<lparr>schedule := s\<rparr>) ra ws d (Queries qs')
           = Inr (r\<lparr>objects := sort_key (\<lambda>x. parse e (ob_datetime x))
                                 (run_threads (e\<lparr>schedule := s\<rparr>) qs')\<rparr>)"
  using assms
  by (auto simp: run_observation_queries_def Let_def and_then_eq_Inr json_response_base_def)

text \<open>
  C3, as the code has it. The objects of a response are sorted by their parsed datetime,
  and the sort is stable: the records of one datetime stand in the order in which the
  threads appended them to the shared list. For every other order of appending, that is
  every schedule of the threads and every order of the task list, the response holds the
  same records with the same sequence of datetimes; it holds the same list of records
  whenever no two different records have the same parsed datetime.
\<close>

theorem merged_result_sorted:
  assumes "run_observation_queries e ra ws d (Queries qs) = Inr r"
      and "mset qs' = mset qs"
  shows "sorted (map (\<lambda>x. parse e (ob_datetime x)) (objects r))
       \<and> (\<forall>k. filter (\<lambda>x. parse e (ob_datetime x) = k) (objects r)
              = filter (\<lambda>x. parse e (ob_datetime x) = k) (run_threads e qs))
       \<and> (\<exists>r'. run_observation_queries (e\<lparr>schedule := sched'\<rparr>) ra ws d (Queries qs') = Inr r'
              \<and> mset (objects r') = mset (objects r)
              \<and> map (\<lambda>x. parse e (ob_datetime x)) (objects r')
                  = map (\<lambda>x. parse e (ob_datetime x)) (objects r)
              \<and> (inj_on (\<lambda>x. parse e (ob_datetime x)) (set (objects r))
                    \<longrightarrow> objects r' = objects r))"
proof -
  let ?f = "\<lambda>x. parse e (ob_datetime x)"
  let ?e' = "e\<lparr>schedule := sched'\<rparr>"
  let ?r' = "r\<lparr>objects := sort_key ?f (run_threads ?e' qs')\<rparr>"
  have obj: "objects r = sort_key ?f (run_threads e qs)"
    using assms(1) by (rule run_observation_queries_objects)
  have ms: "mset (run_threads ?e' qs') = mset (run_threads e qs)"
    using assms(2) by (rule run_threads_mset)
  have 1: "sorted (map ?f (objects r))" unfolding obj by simp
  have 0: "\<forall>k. filter (\<lambda>x. ?f x = k) (objects r) = filter (\<lambda>x. ?f x = k) (run_threads e qs)"
    unfolding obj by (simp add: sort_key_stable)
  have 2: "run_observation_queries ?e' ra ws d (Queries qs') = Inr ?r'"
    using assms(1) by (rule run_observation_queries_other_order)
  have 3: "mset (objects ?r') = mset (objects r)" unfolding obj using ms by simp
  have 4: "map ?f (objects ?r') = map ?f (objects r)"
    unfolding obj using sort_key_keys_mset [OF ms] by simp
  have 5: "objects ?r' = objects r" if inj: "inj_on ?f (set (objects r))"
  proof -
    have "set (run_threads ?e' qs') = set (objects r)"
      using ms unfolding obj by (metis mset_eq_setD set_sort)
    with inj have i: "inj_on ?f (set (run_threads ?e' qs'))" by simp
    have m: "mset (run_threads ?e' qs') = mset (objects r)" unfolding obj using ms by simp
    have "sort_key ?f (run_threads ?e' qs') = objects r"
      by (rule sort_key_inj_key_eq [OF m i 1])
    then show ?thesis by simp
  qed
  from 0 1 2 3 4 5 show ?thesis by blast
qed

theorem merged_result_sorted_witness:
  "(case run_observation_queries demo_env demo_request [] demo_args
           (Queries [(demo_query temperature_table None, temperature_table),
                     (demo_query humidity_table None, humidity_table)])
    of Inl err \<Rightarrow> False
     | Inr r \<Rightarrow> map (\<lambda>x. demo_parse (ob_datetime x)) (objects r) = [10, 10, 20]
               \<and> sorted (map (\<lambda>x. demo_parse (ob_datetime x)) (objects r)))"
proof -
  let ?qs = "[(demo_query temperature_table None, temperature_table),
              (demo_query humidity_table None, humidity_table)]"
  let ?call = "run_observation_queries demo_env demo_request [] demo_args (Queries ?qs)"
  have ev: "(case ?call of Inl err \<Rightarrow> False
     | Inr r \<Rightarrow> map (\<lambda>x. demo_parse (ob_datetime x)) (objects r) = [10, 10, 20])"
    by code_simp
  then obtain r where r: "?call = Inr r" by (cases ?call) auto
  have p: "mset (rev ?qs) = mset ?qs" by (rule mset_rev)
  from merged_result_sorted [OF r p, of "[1, 0]"]
  have "sorted (map (\<lambda>x. parse demo_env (ob_datetime x)) (objects r))" by (rule conjunct1)
  then have "sorted (map (\<lambda>x. demo_parse (ob_datetime x)) (objects r))"
    by (simp add: demo_env_def)
  with ev r show ?thesis by simp
qed

theorem merged_result_order_counterexample:
  "(case run_observation_queries demo_env demo_request [] demo_args
           (Queries [(demo_query temperature_table None, temperature_table),
                     (demo_query humidity_table None, humidity_table)])
    of Inl err \<Rightarrow> False
     | Inr r \<Rightarrow> map ob_feature_of_interest (objects r)
                 = [''temperature'', ''humidity'', ''temperature''])
   \<and> (case run_observation_queries (demo_env\<lparr>schedule := [1]\<rparr>) demo_request [] demo_args
           (Queries [(demo_query temperature_table None, temperature_table),
                     (demo_query humidity_table None, humidity_table)])
    of Inl err \<Rightarrow> False
     | Inr r \<Rightarrow> map ob_feature_of_interest (objects r)
                 = [''humidity'', ''temperature'', ''temperature''])"
  by code_simp







lemma step_post_refl: "pending w = [] \<Longrightarrow> step_post e n rid w k w (Inr k)"
  by (simp add: step_post_def)

lemma store_chunk_post:
  assumes "pending w = []" and "store_chunk e w chunk n k rid = (w', out)"
  shows "step_post e n rid w k w' (map_sum id (\<lambda>u. Suc k) out)"
proof (cases "commit_fails e (commits w)")
  case True
  with assms have "w' = w\<lparr>draws := Suc (draws w), commits := Suc (commits w)\<rparr>" "out = Inl CommitError"
    by (auto simp: store_chunk_def session_add_def session_commit_def session_rollback_def Let_def)
  with True assms(1) show ?thesis by (simp add: step_post_def)
next
  case False
  let ?part = "\<lparr>dd_id = VStr (urandom_hex e (draws w)), dd_request = rid,
                 dd_part = k, dd_total = n, dd_data = Page chunk\<rparr>"
  from False assms have c: "committed w' = committed w @ [?part]" and p: "pending w' = []"
    and cm: "commits w' = Suc (commits w)"
    and st: "statuses w' = (statuses w)(rid := (statuses w rid)\<lparr>js_progress := Some (k, n)\<rparr>)"
    and o: "out = Inr () \<or> out = Inl TypeError"
    by (auto simp: store_chunk_def session_add_def session_commit_def set_status_def
          set_flag_def Let_def split: val.splits)
  show ?thesis
    unfolding step_post_def
  proof (intro conjI)
    show "\<exists>cs. committed w' = committed w @ cs
          \<and> (\<forall>c \<in> set cs. dd_total c = n \<and> dd_request c = rid \<and> k \<le> dd_part c
                \<and> (\<exists>page. dd_data c = Page page))
          \<and> (\<forall>k'. map_sum id (\<lambda>u. Suc k) out = Inr k' \<longrightarrow> map dd_part cs = [k..<k'])
          \<and> (js_progress (statuses w' rid) = js_progress (statuses w rid)
               \<or> (\<exists>j. js_progress (statuses w' rid) = Some (j, n) \<and> k \<le> j
                       \<and> (\<forall>p. k \<le> p \<and> p \<le> j \<longrightarrow> p \<in> dd_part ` set cs)))"
      using c st o by (intro exI [of _ "[?part]"]) auto
  qed (use p cm c st o False in \<open>auto simp: less_Suc_eq_le\<close>)
qed


lemma upt_split: "i \<le> j \<Longrightarrow> j \<le> k \<Longrightarrow> [i..<k] = [i..<j] @ [j..<k]"
  using upt_add_eq_append [of i j "k - j"] by simp

lemma step_post_trans:
  assumes 1: "step_post e n rid w k w1 (Inr k1)" and 2: "step_post e n rid w1 k1 w2 res"
  shows "step_post e n rid w k w2 res"
proof -
  from 1 obtain cs1 where
    c1: "committed w1 = committed w @ cs1"
    and a1: "\<forall>c \<in> set cs1. dd_total c = n \<and> dd_request c = rid \<and> k \<le> dd_part c
                \<and> (\<exists>page. dd_data c = Page page)"
    and m1: "map dd_part cs1 = [k..<k1]"
    and p1: "js_progress (statuses w1 rid) = js_progress (statuses w rid)
               \<or> (\<exists>j. js_progress (statuses w1 rid) = Some (j, n) \<and> k \<le> j
                       \<and> (\<forall>p. k \<le> p \<and> p \<le> j \<longrightarrow> p \<in> dd_part ` set cs1))"
    and le1: "commits w \<le> commits w1"
    and len1: "length (committed w1) = length (committed w)
          + length (filter (\<lambda>i. \<not> commit_fails e i) [commits w..<commits w1])"
    and f1: "\<forall>i. commits w \<le> i \<and> i < commits w1 \<longrightarrow> \<not> commit_fails e i"
    and s1: "\<forall>t. js_startTime (statuses w1 t) = js_startTime (statuses w t)"
    and k1: "k \<le> k1"
    unfolding step_post_def by auto
  from 2 obtain cs2 where
    c2: "committed w2 = committed w1 @ cs2"
    and a2: "\<forall>c \<in> set cs2. dd_total c = n \<and> dd_request c = rid \<and> k1 \<le> dd_part c
                \<and> (\<exists>page. dd_data c = Page page)"
    and m2: "\<forall>k'. res = Inr k' \<longrightarrow> map dd_part cs2 = [k1..<k']"
    and p2: "js_progress (statuses w2 rid) = js_progress (statuses w1 rid)
               \<or> (\<exists>j. js_progress (statuses w2 rid) = Some (j, n) \<and> k1 \<le> j
                       \<and> (\<forall>p. k1 \<le> p \<and> p \<le> j \<longrightarrow> p \<in> dd_part ` set cs2))"
    and pe2: "pending w2 = []"
    and le2: "commits w1 \<le> commits w2"
    and len2: "length (committed w2) = length (committed w1)
          + length (filter (\<lambda>i. \<not> commit_fails e i) [commits w1..<commits w2])"
    and f2: "\<forall>i. commits w1 \<le> i \<and> i < commits w2 \<and> commit_fails e i
           \<longrightarrow> res = Inl CommitError \<and> commits w2 = Suc i"
    and s2: "\<forall>t. js_startTime (statuses w2 t) = js_startTime (statuses w1 t)"
    and k2: "\<forall>k'. res = Inr k' \<longrightarrow> k1 \<le> k'"
    unfolding step_post_def by auto
  have parts1: "p \<in> dd_part ` set cs1" if "k \<le> p" "p < k1" for p
  proof -
    from that have "p \<in> set [k..<k1]" by simp
    then show ?thesis unfolding m1 [symmetric] by simp
  qed
  have A: "committed w2 = committed w @ (cs1 @ cs2)" using c1 c2 by simp
  have B: "\<forall>c \<in> set (cs1 @ cs2). dd_total c = n \<and> dd_request c = rid \<and> k \<le> dd_part c
                \<and> (\<exists>page. dd_data c = Page page)"
    using a1 a2 k1 by fastforce
  have C: "\<forall>k'. res = Inr k' \<longrightarrow> map dd_part (cs1 @ cs2) = [k..<k']"
  proof (intro allI impI)
    fix k' assume r: "res = Inr k'"
    with m2 k2 have "map dd_part cs2 = [k1..<k']" "k1 \<le> k'" by auto
    with m1 k1 show "map dd_part (cs1 @ cs2) = [k..<k']"
      by (simp add: upt_split [symmetric])
  qed
  have D: "js_progress (statuses w2 rid) = js_progress (statuses w rid)
               \<or> (\<exists>j. js_progress (statuses w2 rid) = Some (j, n) \<and> k \<le> j
                       \<and> (\<forall>p. k \<le> p \<and> p \<le> j \<longrightarrow> p \<in> dd_part ` set (cs1 @ cs2)))"
  proof -
    from p2 show ?thesis
    proof
      assume e: "js_progress (statuses w2 rid) = js_progress (statuses w1 rid)"
      from p1 show ?thesis
      proof
        assume "js_progress (statuses w1 rid) = js_progress (statuses w rid)"
        with e show ?thesis by simp
      next
        assume "\<exists>j. js_progress (statuses w1 rid) = Some (j, n) \<and> k \<le> j
                       \<and> (\<forall>p. k \<le> p \<and> p \<le> j \<longrightarrow> p \<in> dd_part ` set cs1)"
        then obtain j where "js_progress (statuses w1 rid) = Some (j, n)" "k \<le> j"
          "\<forall>p. k \<le> p \<and> p \<le> j \<longrightarrow> p \<in> dd_part ` set cs1" by blast
        with e have "js_progress (statuses w2 rid) = Some (j, n) \<and> k \<le> j
                       \<and> (\<forall>p. k \<le> p \<and> p \<le> j \<longrightarrow> p \<in> dd_part ` set (cs1 @ cs2))"
          by auto
        then show ?thesis by blast
      qed
    next
      assume "\<exists>j. js_progress (statuses w2 rid) = Some (j, n) \<and> k1 \<le> j
                       \<and> (\<forall>p. k1 \<le> p \<and> p \<le> j \<longrightarrow> p \<in> dd_part ` set cs2)"
      then obtain j where j: "js_progress (statuses w2 rid) = Some (j, n)" "k1 \<le> j"
        "\<forall>p. k1 \<le> p \<and> p \<le> j \<longrightarrow> p \<in> dd_part ` set cs2" by blast
      have "p \<in> dd_part ` set (cs1 @ cs2)" if "k \<le> p" "p \<le> j" for p
      proof (cases "p < k1")
        case True
        with that parts1 have "p \<in> dd_part ` set cs1" by simp
        then show ?thesis by (simp add: image_Un)
      next
        case False
        with that j(3) have "p \<in> dd_part ` set cs2" by simp
        then show ?thesis by (simp add: image_Un)
      qed
      with j k1 have "js_progress (statuses w2 rid) = Some (j, n) \<and> k \<le> j
                       \<and> (\<forall>p. k \<le> p \<and> p \<le> j \<longrightarrow> p \<in> dd_part ` set (cs1 @ cs2))"
        by auto
      then show ?thesis by blast
    qed
  qed
  have E: "length (committed w2) = length (committed w)
          + length (filter (\<lambda>i. \<not> commit_fails e i) [commits w..<commits w2])"
    using len1 len2 upt_split [OF le1 le2] by simp
  have F: "\<forall>i. commits w \<le> i \<and> i < commits w2 \<and> commit_fails e i
           \<longrightarrow> res = Inl CommitError \<and> commits w2 = Suc i"
    using f1 f2 by (metis not_le_imp_less)
  have G: "\<forall>t. js_startTime (statuses w2 t) = js_startTime (statuses w t)"
    using s1 s2 by simp
  have H: "\<forall>k'. res = Inr k' \<longrightarrow> k \<le> k'" using k1 k2 by fastforce
  have I: "commits w \<le> commits w2" using le1 le2 by simp
  show ?thesis
    unfolding step_post_def using pe2 I A B C D E F G H by blast
qed


lemma step_post_pending: "step_post e n rid w k w' res \<Longrightarrow> pending w' = []"
  by (simp add: step_post_def)

lemma drain_rows_post:
  assumes "pending w = []" and "drain_rows e n rid t rows (w, chunk, k) = (w', out)"
  shows "step_post e n rid w k w' (map_sum id snd out)"
  using assms
proof (induction rows arbitrary: w chunk k)
  case Nil
  then have "w' = w" "out = Inr (chunk, k)" by auto
  with step_post_refl [OF Nil(1)] show ?case by simp
next
  case (Cons row rows)
  let ?chunk = "chunk @ [format_observation e row t]"
  show ?case
  proof (cases "length ?chunk > 1000")
    case False
    with Cons.prems(2) have "drain_rows e n rid t rows (w, ?chunk, k) = (w', out)"
      by (simp add: Let_def)
    with Cons.IH [OF Cons.prems(1)] show ?thesis by blast
  next
    case True
    obtain w1 o1 where st: "store_chunk e w ?chunk n k rid = (w1, o1)"
      by (cases "store_chunk e w ?chunk n k rid")
    from store_chunk_post [OF Cons.prems(1) st]
    have p1: "step_post e n rid w k w1 (map_sum id (\<lambda>u. Suc k) o1)" .
    show ?thesis
    proof (cases o1)
      case (Inl err)
      with True st Cons.prems(2) have "w' = w1" "out = Inl err" by (simp_all add: Let_def)
      with p1 Inl show ?thesis by simp
    next
      case (Inr u)
      with True st Cons.prems(2)
      have rest: "drain_rows e n rid t rows (w1, [], Suc k) = (w', out)"
        by (simp add: Let_def)
      from p1 Inr have p1': "step_post e n rid w k w1 (Inr (Suc k))" by simp
      from Cons.IH [OF step_post_pending [OF p1'] rest]
      have "step_post e n rid w1 (Suc k) w' (map_sum id snd out)" .
      with p1' show ?thesis by (rule step_post_trans)
    qed
  qed
qed

lemma drain_queries_post:
  assumes "pending w = []"
      and "drain_queries e n rid qs (w, chunk, k, features) = (w', out)"
  shows "step_post e n rid w k w' (map_sum id (\<lambda>(c, k', fs). k') out)
       \<and> (\<forall>c k' fs. out = Inr (c, k', fs)
             \<longrightarrow> set fs = set features \<union> (\<lambda>(q, t). lower (t_name t)) ` set qs)"
  using assms
proof (induction qs arbitrary: w chunk k features)
  case Nil
  then have "w' = w" "out = Inr (chunk, k, features)" by auto
  with step_post_refl [OF Nil(1)] show ?case by simp
next
  case (Cons a qs)
  obtain q t where a: "a = (q, t)" by (cases a)
  obtain w1 o1 where dr: "drain_rows e n rid t (windowed_query e q) (w, chunk, k) = (w1, o1)"
    by (cases "drain_rows e n rid t (windowed_query e q) (w, chunk, k)")
  from drain_rows_post [OF Cons.prems(1) dr]
  have p1: "step_post e n rid w k w1 (map_sum id snd o1)" .
  show ?case
  proof (cases o1)
    case (Inl err)
    with a dr Cons.prems(2) have "w' = w1" "out = Inl err" by (simp_all add: Let_def)
    with p1 Inl show ?thesis by simp
  next
    case (Inr r)
    obtain chunk' k' where r: "r = (chunk', k')" by (cases r)
    with Inr a dr Cons.prems(2)
    have rest: "drain_queries e n rid qs
                  (w1, chunk', k', List.insert (lower (t_name t)) features) = (w', out)"
      by (simp add: Let_def)
    from p1 Inr r have p1': "step_post e n rid w k w1 (Inr k')" by simp
    from Cons.IH [OF step_post_pending [OF p1'] rest]
    have p2: "step_post e n rid w1 k' w' (map_sum id (\<lambda>(c, k', fs). k') out)"
      and f: "\<forall>c k'' fs. out = Inr (c, k'', fs)
             \<longrightarrow> set fs = set (List.insert (lower (t_name t)) features)
                            \<union> (\<lambda>(q, t). lower (t_name t)) ` set qs"
      by blast+
    from p1' p2 have "step_post e n rid w k w' (map_sum id (\<lambda>(c, k', fs). k') out)"
      by (rule step_post_trans)
    moreover from f a have "\<forall>c k'' fs. out = Inr (c, k'', fs)
             \<longrightarrow> set fs = set features \<union> (\<lambda>(q, t). lower (t_name t)) ` set (a # qs)"
      by auto
    ultimately show ?thesis by blast
  qed
qed

lemma write_chunks_post:
  assumes "pending w = []" and "write_chunks e n rid qs w = (w', out)"
  shows "\<exists>res. step_post e n rid w 1 w' res
           \<and> (case out of
                 Inl err \<Rightarrow> res = Inl err
               | Inr fs \<Rightarrow> (\<exists>k. res = Inr k)
                            \<and> set fs = (\<lambda>(q, t). lower (t_name t)) ` set qs)"
proof -
  obtain w1 o1 where dq: "drain_queries e n rid qs (w, [], 1, []) = (w1, o1)"
    by (cases "drain_queries e n rid qs (w, [], 1, [])")
  from drain_queries_post [OF assms(1) dq]
  have p1: "step_post e n rid w 1 w1 (map_sum id (\<lambda>(c, k', fs). k') o1)"
    and f: "\<forall>c k' fs. o1 = Inr (c, k', fs)
             \<longrightarrow> set fs = (\<lambda>(q, t). lower (t_name t)) ` set qs"
    by auto
  show ?thesis
  proof (cases o1)
    case (Inl err)
    with dq assms(2) have "w' = w1" "out = Inl err" by (simp_all add: write_chunks_def)
    with p1 Inl show ?thesis by auto
  next
    case (Inr r)
    obtain chunk k fs where r: "r = (chunk, k, fs)" by (cases r)
    from p1 Inr r have p1': "step_post e n rid w 1 w1 (Inr k)" by simp
    from f Inr r have fs: "set fs = (\<lambda>(q, t). lower (t_name t)) ` set qs" by simp
    show ?thesis
    proof (cases "length chunk > 0")
      case False
      with Inr r dq assms(2) have "w' = w1" "out = Inr fs" by (simp_all add: write_chunks_def)
      with p1' fs show ?thesis by auto
    next
      case True
      obtain w2 o2 where st: "store_chunk e w1 chunk n k rid = (w2, o2)"
        by (cases "store_chunk e w1 chunk n k rid")
      from store_chunk_post [OF step_post_pending [OF p1'] st]
      have "step_post e n rid w1 k w2 (map_sum id (\<lambda>u. Suc k) o2)" .
      with p1' have p2: "step_post e n rid w 1 w2 (map_sum id (\<lambda>u. Suc k) o2)"
        by (rule step_post_trans)
      from True Inr r dq st assms(2)
      have "w' = w2" "out = (case o2 of Inl err \<Rightarrow> Inl err | Inr u \<Rightarrow> Inr fs)"
        by (simp_all add: write_chunks_def split: sum.splits)
      with p2 fs show ?thesis by (cases o2) auto
    qed
  qed
qed


lemma drain_queries_distinct:
  assumes "drain_queries e n rid qs (w, chunk, k, features) = (w', Inr (c, k', fs))"
      and "distinct features"
  shows "distinct fs"
  using assms
proof (induction qs arbitrary: w chunk k features)
  case Nil
  then show ?case by simp
next
  case (Cons a qs)
  obtain q t where a: "a = (q, t)" by (cases a)
  obtain w1 o1 where dr: "drain_rows e n rid t (windowed_query e q) (w, chunk, k) = (w1, o1)"
    by (cases "drain_rows e n rid t (windowed_query e q) (w, chunk, k)")
  show ?case
  proof (cases o1)
    case (Inl err)
    with a dr Cons.prems(1) show ?thesis by (simp add: Let_def)
  next
    case (Inr r)
    obtain chunk' k1 where r: "r = (chunk', k1)" by (cases r)
    with Inr a dr Cons.prems(1)
    have rest: "drain_queries e n rid qs
                  (w1, chunk', k1, List.insert (lower (t_name t)) features)
                = (w', Inr (c, k', fs))"
      by (simp add: Let_def)
    from Cons.prems(2) have "distinct (List.insert (lower (t_name t)) features)" by simp
    with Cons.IH [OF rest] show ?thesis .
  qed
qed

lemma write_chunks_distinct:
  assumes "write_chunks e n rid qs w = (w', Inr fs)"
  shows "distinct fs"
proof -
  obtain w1 o1 where dq: "drain_queries e n rid qs (w, [], 1, []) = (w1, o1)"
    by (cases "drain_queries e n rid qs (w, [], 1, [])")
  show ?thesis
  proof (cases o1)
    case (Inl err)
    with dq assms show ?thesis by (simp add: write_chunks_def)
  next
    case (Inr r)
    obtain c k fs' where r: "r = (c, k, fs')" by (cases r)
    with Inr dq assms have "fs' = fs"
      by (auto simp: write_chunks_def split: if_splits prod.splits sum.splits)
    with Inr r dq have "drain_queries e n rid qs (w, [], 1, []) = (w1, Inr (c, k, fs))" by simp
    then show ?thesis by (rule drain_queries_distinct) simp
  qed
qed

lemma write_meta_chunk_cases:
  assumes "write_meta_chunk e d rid n fs w = (w', mo)" and "pending w = []"
  shows "(d ''jobsframework_workerid'' = None \<and> w' = w
            \<and> mo = Inl (KeyError ''jobsframework_workerid''))
       \<or> (\<exists>worker. d ''jobsframework_workerid'' = Some worker
            \<and> commits w' = Suc (commits w) \<and> pending w' = [] \<and> statuses w' = statuses w
            \<and> (if commit_fails e (commits w)
                then committed w' = committed w \<and> mo = Inl CommitError
                else committed w' = committed w @ [meta_dump e w rid n worker fs]
                     \<and> mo = Inr ()))"
proof (cases "d ''jobsframework_workerid''")
  case None
  with assms(1) show ?thesis by (simp add: write_meta_chunk_def data_item_def)
next
  case (Some worker)
  with assms show ?thesis
    by (cases "commit_fails e (commits w)")
       (auto simp: write_meta_chunk_def data_item_def session_commit_def session_add_def
                   session_rollback_def Let_def)
qed

lemma datadump_cases:
  assumes "get_observation_datadump e ra w d = (w', out)" and "pending w = []"
  shows "(w' = w \<and> (\<exists>err. out = Inl err))
       \<or> (\<exists>d' qs n w1 res.
             get_observation_queries e ra d = Inr (d', Queries qs)
           \<and> chunk_count e d' qs = Inr n
           \<and> step_post e n (data_get d ''jobsframework_ticket'') w 1 w1 res
           \<and> ((\<exists>err. res = Inl err \<and> out = Inl err \<and> w' = w1)
              \<or> (\<exists>k fs mo. res = Inr k
                    \<and> set fs = (\<lambda>(q, t). lower (t_name t)) ` set qs
                    \<and> distinct fs
                    \<and> write_meta_chunk e d' (data_get d ''jobsframework_ticket'') n fs w1
                        = (w', mo)
                    \<and> (case mo of Inl err \<Rightarrow> out = Inl err | Inr u \<Rightarrow> True))))"
proof (cases "get_observation_queries e ra d")
  case (Inl err)
  with assms(1) show ?thesis by (auto simp: get_observation_datadump_def)
next
  case (Inr r)
  obtain d' pl where r: "r = (d', pl)" by (cases r)
  show ?thesis
  proof (cases pl)
    case (Response x)
    with Inr r assms(1) show ?thesis by (auto simp: get_observation_datadump_def)
  next
    case (Queries qs)
    note plan = Inr [unfolded r Queries]
    show ?thesis
    proof (cases "chunk_count e d' qs")
      case (Inl err)
      with plan assms(1) show ?thesis by (auto simp: get_observation_datadump_def)
    next
      case n: (Inr n)
      let ?rid = "data_get d ''jobsframework_ticket''"
      obtain w1 o1 where wc: "write_chunks e n ?rid qs w = (w1, o1)"
        by (cases "write_chunks e n ?rid qs w")
      from write_chunks_post [OF assms(2) wc] obtain res where
        sp: "step_post e n ?rid w 1 w1 res" and
        rs: "case o1 of Inl err \<Rightarrow> res = Inl err
             | Inr fs \<Rightarrow> (\<exists>k. res = Inr k) \<and> set fs = (\<lambda>(q, t). lower (t_name t)) ` set qs"
        by blast
      show ?thesis
      proof (cases o1)
        case (Inl err)
        with plan n wc assms(1) have "w' = w1" "out = Inl err"
          by (simp_all add: get_observation_datadump_def)
        with Inl rs sp plan n show ?thesis by auto
      next
        case fs: (Inr fs)
        obtain w2 mo where wm: "write_meta_chunk e d' ?rid n fs w1 = (w2, mo)"
          by (cases "write_meta_chunk e d' ?rid n fs w1")
        from fs rs obtain k where k: "res = Inr k"
          and f: "set fs = (\<lambda>(q, t). lower (t_name t)) ` set qs" by auto
        from plan n wc fs wm assms(1) have w': "w' = w2"
          by (auto simp: get_observation_datadump_def split: sum.splits val.splits)
        from plan n wc fs wm assms(1)
        have "case mo of Inl err \<Rightarrow> out = Inl err | Inr u \<Rightarrow> True"
          by (auto simp: get_observation_datadump_def split: sum.splits val.splits)
        moreover from wc fs have "distinct fs" by (simp add: write_chunks_distinct)
        ultimately show ?thesis using sp k f wm w' plan n by blast
      qed
    qed
  qed
qed

lemma shifted_ratio:
  assumes "0 < q" and "shifted p q s = (p', q')"
  shows "0 < q'"
    and "real_of_int p' / real_of_int q'
           = real_of_int p / real_of_int q / 2 powr real_of_int s"
proof -
  show "0 < q'" using assms by (auto simp: shifted_def split: if_splits)
  show "real_of_int p' / real_of_int q'
           = real_of_int p / real_of_int q / 2 powr real_of_int s"
  proof (cases "0 \<le> s")
    case True
    with assms(2) have "p' = p" "q' = q * 2 ^ nat s" by (simp_all add: shifted_def)
    with True show ?thesis by (simp add: powr_real_of_int)
  next
    case False
    with assms(2) have "p' = p * 2 ^ nat (- s)" "q' = q" by (simp_all add: shifted_def)
    with False show ?thesis by (simp add: powr_real_of_int field_simps)
  qed
qed

lemma round_half_even_error:
  assumes "0 < q"
  shows "\<bar>real_of_int (round_half_even p q) - real_of_int p / real_of_int q\<bar> \<le> 1 / 2"
proof -
  define f where "f = p div q"
  define r where "r = p mod q"
  have r: "0 \<le> r" "r < q" using assms by (simp_all add: r_def)
  have "p = q * f + r" by (simp add: f_def r_def)
  then have "real_of_int p = real_of_int q * real_of_int f + real_of_int r"
    by (metis of_int_add of_int_mult)
  then have pq: "real_of_int p / real_of_int q = real_of_int f + real_of_int r / real_of_int q"
    using assms by (simp add: field_simps)
  have a: "2 * r \<le> q \<Longrightarrow> real_of_int r / real_of_int q \<le> 1 / 2"
  proof -
    assume "2 * r \<le> q"
    then have "2 * real_of_int r \<le> real_of_int q" by linarith
    with assms show ?thesis by (simp add: field_simps)
  qed
  have b: "q \<le> 2 * r \<Longrightarrow> 1 / 2 \<le> real_of_int r / real_of_int q"
  proof -
    assume "q \<le> 2 * r"
    then have "real_of_int q \<le> 2 * real_of_int r" by linarith
    with assms show ?thesis by (simp add: field_simps)
  qed
  have c: "0 \<le> real_of_int r / real_of_int q" "real_of_int r / real_of_int q < 1"
    using r assms by simp_all
  consider "2 * r < q" | "q < 2 * r" | "2 * r = q" by linarith
  then show ?thesis
  proof cases
    case 1
    then have "round_half_even p q = f" by (simp add: round_half_even_def f_def r_def Let_def)
    with pq a 1 c show ?thesis by simp
  next
    case 2
    then have "round_half_even p q = f + 1"
      by (simp add: round_half_even_def f_def r_def Let_def)
    with pq b 2 c show ?thesis by simp
  next
    case 3
    then have "round_half_even p q = f \<or> round_half_even p q = f + 1"
      by (simp add: round_half_even_def f_def r_def Let_def)
    moreover from 3 a b have "real_of_int r / real_of_int q = 1 / 2" by force
    ultimately show ?thesis using pq by auto
  qed
qed

lemma round_half_even_exact:
  assumes "0 < q" and "q dvd p"
  shows "round_half_even p q = p div q"
  using assms by (simp add: round_half_even_def Let_def mod_eq_0_iff_dvd)

lemma two_powr_int: "0 \<le> k \<Longrightarrow> (2::real) powr real_of_int k = 2 ^ nat k"
  by (simp add: powr_real_of_int)

lemma float_exponent_le:
  assumes "0 < p" and "0 < q"
  shows "2 powr real_of_int (float_exponent p q) \<le> real_of_int p / real_of_int q"
proof -
  define d where "d = bitlen p - bitlen q"
  obtain p' q' where sh: "shifted p q d = (p', q')" by (cases "shifted p q d")
  note r = shifted_ratio [OF assms(2) sh]
  show ?thesis
  proof (cases "q' \<le> p'")
    case True
    with sh have fe: "float_exponent p q = d" by (simp add: float_exponent_def d_def)
    from True r(1) have "1 \<le> real_of_int p' / real_of_int q'" by simp
    with r(2) have "1 \<le> real_of_int p / real_of_int q / 2 powr real_of_int d" by simp
    then have "2 powr real_of_int d \<le> real_of_int p / real_of_int q"
      using pos_le_divide_eq [of "2 powr real_of_int d" 1 "real_of_int p / real_of_int q"]
      by simp
    with fe show ?thesis by simp
  next
    case False
    with sh have fe: "float_exponent p q = d - 1" by (simp add: float_exponent_def d_def)
    from bitlen_bounds [OF assms(1)] have lo: "2 ^ nat (bitlen p - 1) \<le> p" by simp
    from bitlen_bounds [OF assms(2)] have hi: "q < 2 ^ nat (bitlen q)" by simp
    have bp: "0 < bitlen p" and bq: "0 < bitlen q"
      using assms bitlen_nonneg [of p] bitlen_nonneg [of q]
            bitlen_eq_zero_iff [of p] bitlen_eq_zero_iff [of q] by linarith+
    have "(2::real) powr real_of_int (bitlen p - 1) = 2 ^ nat (bitlen p - 1)"
      by (rule two_powr_int) (use bp in simp)
    also have "\<dots> \<le> real_of_int p" using lo
      by (metis of_int_le_iff of_int_numeral of_int_power)
    finally have lo': "2 powr real_of_int (bitlen p - 1) \<le> real_of_int p" .
    have "real_of_int q < 2 ^ nat (bitlen q)" using hi
      by (metis of_int_less_iff of_int_numeral of_int_power)
    also have "\<dots> = 2 powr real_of_int (bitlen q)"
      by (rule two_powr_int [symmetric]) (use bq in simp)
    finally have hi': "real_of_int q \<le> 2 powr real_of_int (bitlen q)" by simp
    have "real_of_int (d - 1) = real_of_int (bitlen p - 1) - real_of_int (bitlen q)"
      by (simp add: d_def)
    then have "2 powr real_of_int (d - 1)
            = 2 powr real_of_int (bitlen p - 1) / 2 powr real_of_int (bitlen q)"
      by (simp only: powr_diff)
    also have "\<dots> \<le> real_of_int p / 2 powr real_of_int (bitlen q)"
      using lo' by (simp add: divide_right_mono)
    also have "\<dots> \<le> real_of_int p / real_of_int q"
      using hi' assms by (simp add: frac_le)
    finally show ?thesis using fe by simp
  qed
qed

lemma float_exponent_less:
  assumes "0 < p" and "0 < q" and "real_of_int p / real_of_int q < 2 ^ n"
  shows "float_exponent p q < int n"
proof -
  from float_exponent_le [OF assms(1,2)] assms(3)
  have "2 powr real_of_int (float_exponent p q) < 2 ^ n" by simp
  also have "\<dots> = 2 powr real_of_int (int n)" by (simp add: powr_realpow)
  finally show ?thesis by simp
qed


lemma nearest_double_int:
  assumes "0 < a" and "a < 2 ^ 53"
  shows "\<exists>k. nearest_double a 1 = \<lparr>mantissa = a * 2 ^ k, exponent = - int k\<rparr>"
proof -
  define e where "e = float_exponent a 1 - 52"
  have "real_of_int a / real_of_int 1 < 2 ^ 53" using assms(2) by simp
  from float_exponent_less [OF assms(1) _ this] have e: "e \<le> 0" by (simp add: e_def)
  have sh: "shifted a 1 e = (a * 2 ^ nat (- e), 1)"
    using e by (cases "e = 0") (simp_all add: shifted_def)
  have "nearest_double a 1 = \<lparr>mantissa = a * 2 ^ nat (- e), exponent = e\<rparr>"
    using assms(1) sh by (simp add: nearest_double_def e_def [symmetric] round_half_even_exact)
  with e have "nearest_double a 1 = \<lparr>mantissa = a * 2 ^ nat (- e), exponent = - int (nat (- e))\<rparr>"
    by simp
  then show ?thesis ..
qed

lemma float_div_chunk_size:
  "float_div \<lparr>mantissa = a * 2 ^ k, exponent = - int k\<rparr> chunk_size
     = nearest_double (a * 2 ^ k) (1000 * 2 ^ k)"
  by (simp add: float_div_def chunk_size_def shifted_def)

lemma float_ceil_neg_exponent:
  "float_ceil \<lparr>mantissa = m, exponent = - int n\<rparr> = \<lceil>real_of_int m / 2 ^ n\<rceil>"
proof -
  have "\<lceil>real_of_int m / real_of_int (2 ^ n)\<rceil> = - (- m div 2 ^ n)"
    by (rule ceiling_divide_eq_div)
  moreover have "float_ceil \<lparr>mantissa = m, exponent = - int n\<rparr> = - (- m div 2 ^ n)"
    by (cases "n = 0") (simp_all add: float_ceil_def)
  ultimately show ?thesis by simp
qed

lemma nearest_quotient_ceil:
  assumes "0 < a" and "a < 2 ^ 53"
  shows "float_ceil (nearest_double (a * 2 ^ k) (1000 * 2 ^ k)) = \<lceil>real_of_int a / 1000\<rceil>"
proof -
  define P where "P = a * 2 ^ k"
  define Q :: int where "Q = 1000 * 2 ^ k"
  have P: "0 < P" and Q: "0 < Q" using assms(1) by (simp_all add: P_def Q_def)
  have PQ: "real_of_int P / real_of_int Q = real_of_int a / 1000"
    by (simp add: P_def Q_def)
  define e where "e = float_exponent P Q - 52"
  have "real_of_int a / 1000 < 2 ^ 44" using assms(2) by simp
  then have "real_of_int P / real_of_int Q < 2 ^ 44" by (simp only: PQ)
  from float_exponent_less [OF P Q this] have e: "e \<le> - 9" by (simp add: e_def)
  define n where "n = nat (- e)"
  have n: "9 \<le> n" and en: "e = - int n" using e by (simp_all add: n_def)
  have sh: "shifted P Q e = (P * 2 ^ n, Q)" using e by (simp add: shifted_def n_def)
  define m where "m = round_half_even (P * 2 ^ n) Q"
  have nd: "nearest_double P Q = \<lparr>mantissa = m, exponent = - int n\<rparr>"
    using P sh by (simp add: nearest_double_def e_def [symmetric] m_def en [symmetric])
  have fc: "float_ceil (nearest_double P Q) = \<lceil>real_of_int m / 2 ^ n\<rceil>"
    by (simp only: nd float_ceil_neg_exponent)
  define c where "c = \<lceil>real_of_int a / 1000\<rceil>"
  have "\<lceil>real_of_int m / 2 ^ n\<rceil> = c"
  proof (cases "1000 dvd a")
    case True
    then obtain t where t: "a = 1000 * t" ..
    have "P * 2 ^ n = Q * (t * 2 ^ n)" by (simp add: P_def Q_def t)
    then have "m = t * 2 ^ n" using Q
      by (simp add: m_def round_half_even_exact)
    moreover have "c = t" by (simp add: c_def t)
    ultimately show ?thesis by simp
  next
    case False
    have c1: "real_of_int a / 1000 \<le> real_of_int c" and c2: "real_of_int c - 1 < real_of_int a / 1000"
      unfolding c_def by linarith+
    from c1 have "a \<le> 1000 * c" by linarith
    moreover from False have "a \<noteq> 1000 * c" by auto
    ultimately have "a \<le> 1000 * c - 1" by linarith
    then have "real_of_int a \<le> real_of_int (1000 * c - 1)"
      by (simp only: of_int_le_iff)
    then have hi: "real_of_int a / 1000 \<le> real_of_int c - 1 / 1000" by simp
    from c2 have "real_of_int (1000 * (c - 1)) < real_of_int a" by simp
    then have "1000 * (c - 1) < a" by (simp only: of_int_less_iff)
    then have "1000 * (c - 1) + 1 \<le> a" by linarith
    then have "real_of_int (1000 * (c - 1) + 1) \<le> real_of_int a"
      by (simp only: of_int_le_iff)
    then have lo: "real_of_int c - 1 + 1 / 1000 \<le> real_of_int a / 1000" by simp
    from round_half_even_error [OF Q, of "P * 2 ^ n"]
    have e1: "\<bar>real_of_int m - real_of_int (P * 2 ^ n) / real_of_int Q\<bar> \<le> 1 / 2"
      by (simp only: m_def)
    have "real_of_int (P * 2 ^ n) / real_of_int Q
            = real_of_int P / real_of_int Q * 2 ^ n" by simp
    then have e2: "real_of_int (P * 2 ^ n) / real_of_int Q = real_of_int a / 1000 * 2 ^ n"
      by (simp only: PQ)
    from e1 have err: "\<bar>real_of_int m - real_of_int a / 1000 * 2 ^ n\<bar> \<le> 1 / 2"
      by (simp only: e2)
    have p: "(0::real) < 2 ^ n" by simp
    have "real_of_int m / 2 ^ n - real_of_int a / 1000
            = (real_of_int m - real_of_int a / 1000 * 2 ^ n) / 2 ^ n"
      by (simp add: field_simps)
    then have "\<bar>real_of_int m / 2 ^ n - real_of_int a / 1000\<bar>
            = \<bar>real_of_int m - real_of_int a / 1000 * 2 ^ n\<bar> / 2 ^ n"
      by (simp add: abs_divide)
    also have "\<dots> \<le> (1 / 2) / 2 ^ n" using err p by (rule divide_right_mono [OF _ less_imp_le])
    also have "\<dots> \<le> (1 / 2) / 2 ^ 9"
    proof (rule divide_left_mono)
      show "(2::real) ^ 9 \<le> 2 ^ n" using n by (intro power_increasing) simp_all
    qed simp_all
    finally have "\<bar>real_of_int m / 2 ^ n - real_of_int a / 1000\<bar> \<le> 1 / 1024" by simp
    with lo hi have "real_of_int c - 1 < real_of_int m / 2 ^ n"
      and "real_of_int m / 2 ^ n \<le> real_of_int c" by linarith+
    then show ?thesis by (simp add: ceiling_unique)
  qed
  with fc show ?thesis by (simp add: P_def Q_def c_def)
qed

lemma chunk_total_exact:
  assumes "0 \<le> a" and "a < 2 ^ 53"
  shows "float_ceil (float_div (nearest_double a 1) chunk_size) = \<lceil>real_of_int a / 1000\<rceil>"
proof (cases "a = 0")
  case True
  then show ?thesis
    by (simp add: nearest_double_def float_div_def chunk_size_def shifted_def float_ceil_def)
next
  case False
  with assms(1) have a: "0 < a" by simp
  from nearest_double_int [OF a assms(2)] obtain k where
    "nearest_double a 1 = \<lparr>mantissa = a * 2 ^ k, exponent = - int k\<rparr>" ..
  then show ?thesis
    by (simp only: float_div_chunk_size nearest_quotient_ceil [OF a assms(2)])
qed

lemma float_of_int_exact:
  assumes "0 \<le> a" and "a < 2 ^ 53"
  shows "float_of_int a = Inr (nearest_double a 1)"
proof (cases "a = 0")
  case True
  then show ?thesis by (simp add: float_of_int_def nearest_double_def)
next
  case False
  with assms(1) have "0 < a" by simp
  from nearest_double_int [OF this assms(2)] obtain k where
    "nearest_double a 1 = \<lparr>mantissa = a * 2 ^ k, exponent = - int k\<rparr>" ..
  then show ?thesis by (simp add: float_of_int_def)
qed

lemma chunk_count_exact:
  assumes "data_get d ''limit'' = VNone \<or> data_get d ''limit'' = VInt l"
      and "row_count = (if truthy (data_get d ''limit'') then l
                        else sum_list (map (\<lambda>(q, t). fast_count e q) qs))"
      and "0 \<le> row_count" and "row_count < 2 ^ 53"
  shows "chunk_count e d qs = Inr \<lceil>real_of_int row_count / 1000\<rceil>"
proof -
  have "(if truthy (data_get d ''limit'')
         then (case data_get d ''limit'' of VInt l \<Rightarrow> Inr l | _ \<Rightarrow> Inl TypeError)
         else Inr (sum_list (map (\<lambda>(q, t). fast_count e q) qs))) = Inr row_count"
    using assms(1,2) by auto
  then have "chunk_count e d qs
      = and_then (float_of_int row_count) (\<lambda>x. Inr (float_ceil (float_div x chunk_size)))"
    by (simp add: chunk_count_def Let_def and_then_def)
  also have "\<dots> = Inr (float_ceil (float_div (nearest_double row_count 1) chunk_size))"
    by (simp add: float_of_int_exact [OF assms(3,4)] and_then_def)
  finally show ?thesis by (simp only: chunk_total_exact [OF assms(3,4)])
qed

lemma chunk_count_limit_cong:
  "data_get d' ''limit'' = data_get d ''limit'' \<Longrightarrow> chunk_count e d' qs = chunk_count e d qs"
  by (simp add: chunk_count_def)

lemma datadump_totals:
  assumes "get_observation_datadump e ra w d = (w', out)" and "pending w = []"
  shows "(w' = w \<and> (\<exists>err. out = Inl err))
       \<or> (\<exists>d' qs n cs. get_observation_queries e ra d = Inr (d', Queries qs)
             \<and> chunk_count e d' qs = Inr n
             \<and> committed w' = committed w @ cs
             \<and> (\<forall>c \<in> set cs. dd_total c = n)
             \<and> ((\<exists>url. out = Inr url) \<longrightarrow> cs \<noteq> []))"
proof -
  let ?rid = "data_get d ''jobsframework_ticket''"
  from datadump_cases [OF assms] show ?thesis
  proof (elim disjE exE conjE)
    fix err
    assume "w' = w" "out = Inl err"
    then show ?thesis by simp
  next
    fix d' qs n w1 res err
    assume a: "get_observation_queries e ra d = Inr (d', Queries qs)"
              "chunk_count e d' qs = Inr n"
              "step_post e n ?rid w 1 w1 res"
              "res = Inl err" "out = Inl err" "w' = w1"
    from a(3) obtain cs where "committed w1 = committed w @ cs"
      "\<forall>c \<in> set cs. dd_total c = n" by (auto simp: step_post_def)
    with a show ?thesis by auto
  next
    fix d' qs n w1 res k fs mo
    assume a: "get_observation_queries e ra d = Inr (d', Queries qs)"
              "chunk_count e d' qs = Inr n"
              "step_post e n ?rid w 1 w1 res"
              "write_meta_chunk e d' ?rid n fs w1 = (w', mo)"
              "case mo of Inl err \<Rightarrow> out = Inl err | Inr u \<Rightarrow> True"
    from a(3) obtain cs where cs: "committed w1 = committed w @ cs"
      "\<forall>c \<in> set cs. dd_total c = n" and p1: "pending w1 = []"
      by (auto simp: step_post_def)
    from write_meta_chunk_cases [OF a(4) p1]
    consider "w' = w1" "\<exists>err. mo = Inl err"
      | "committed w' = committed w1" "mo = Inl CommitError"
      | worker where "committed w' = committed w1 @ [meta_dump e w1 ?rid n worker fs]"
      by (auto split: if_splits)
    then show ?thesis
    proof cases
      case 1
      with a cs show ?thesis by auto
    next
      case 2
      with a cs show ?thesis by auto
    next
      case 3
      with cs have "committed w' = committed w @ (cs @ [meta_dump e w1 ?rid n worker fs])"
        "\<forall>c \<in> set (cs @ [meta_dump e w1 ?rid n worker fs]). dd_total c = n"
        by (auto simp: meta_dump_def)
      with a(1,2) show ?thesis by blast
    qed
  qed
qed

text \<open>
  Claim C4, as amended. For a run of the datadump job from a clean session, whatever
  its outcome: when the limit is absent or an int, every record the run has committed,
  the closing record included, carries the total \<open>\<lceil>row_count / 1000\<rceil>\<close>, where
  \<open>row_count\<close> is the limit when the limit is truthy, that is not 0, and else the sum of
  the counts of the planned queries, provided \<open>0 \<le> row_count < 2 ^ 53\<close>; and a run that
  completes has committed at least one record. The total depends on the plan and the
  arguments only, not on the tables written: it is one value for the whole run. The
  bound is needed: the quotient is computed in double precision, see the counterexample.
\<close>

theorem datadump_total:
  assumes "get_observation_datadump e ra w d = (w', out)"
      and "pending w = []"
      and "plan_queries (get_observation_queries e ra d) = Some qs"
      and "data_get d ''limit'' = VNone \<or> data_get d ''limit'' = VInt l"
      and "row_count = (if truthy (data_get d ''limit'') then l
                        else sum_list (map (\<lambda>(q, t). fast_count e q) qs))"
      and "0 \<le> row_count" and "row_count < 2 ^ 53"
  shows "\<exists>cs. committed w' = committed w @ cs
            \<and> (\<forall>c \<in> set cs. dd_total c = \<lceil>real_of_int row_count / 1000\<rceil>)
            \<and> ((\<exists>url. out = Inr url) \<longrightarrow> cs \<noteq> [])"
proof -
  from datadump_totals [OF assms(1,2)] show ?thesis
  proof (elim disjE exE conjE)
    fix err
    assume "w' = w" "out = Inl err"
    then show ?thesis by simp
  next
    fix d' qs' n cs
    assume a: "get_observation_queries e ra d = Inr (d', Queries qs')"
              "chunk_count e d' qs' = Inr n"
              "committed w' = committed w @ cs"
              "\<forall>c \<in> set cs. dd_total c = n"
              "(\<exists>url. out = Inr url) \<longrightarrow> cs \<noteq> []"
    from a(1) assms(3) have qs: "qs' = qs" by (simp add: plan_queries_def)
    from a(1) have "d' ''limit'' = d ''limit''"
      by (rule get_observation_queries_QueriesD) simp
    then have "data_get d' ''limit'' = data_get d ''limit''" by (simp add: data_get_def)
    then have "chunk_count e d' qs = chunk_count e d qs" by (rule chunk_count_limit_cong)
    with a(2) qs chunk_count_exact [OF assms(4,5,6,7)]
    have "n = \<lceil>real_of_int row_count / 1000\<rceil>" by simp
    with a(3,4,5) show ?thesis by blast
  qed
qed


theorem datadump_total_witness:
  "(case get_observation_datadump demo_env demo_request demo_world demo_job_args of
      (w', out) \<Rightarrow>
        out = Inr ''http://plenar.io/v1/api/datadump/ticket1''
        \<and> map dd_part (committed w') = [1, 0]
        \<and> map dd_total (committed w') = [3, 3]
        \<and> list_all (\<lambda>c. dd_total c = \<lceil>real_of_int 2500 / 1000\<rceil>) (committed w'))"
proof -
  let ?J = "get_observation_datadump demo_env demo_request demo_world demo_job_args"
  obtain w' out where J: "?J = (w', out)" by (cases ?J)
  have ev: "(case ?J of (w', out) \<Rightarrow>
        out = Inr ''http://plenar.io/v1/api/datadump/ticket1''
        \<and> map dd_part (committed w') = [1, 0]
        \<and> map dd_total (committed w') = [3, 3])"
    by code_simp
  have clean: "pending demo_world = []" by (simp add: demo_world_def)
  have "map_option (map (\<lambda>(q, t). t_name t))
          (plan_queries (get_observation_queries demo_env demo_request demo_job_args))
        = Some [''temperature'', ''humidity'']"
    by code_simp
  then obtain qs where
    plan: "plan_queries (get_observation_queries demo_env demo_request demo_job_args) = Some qs"
    by (cases "plan_queries (get_observation_queries demo_env demo_request demo_job_args)") auto
  have limit: "data_get demo_job_args ''limit'' = VNone
             \<or> data_get demo_job_args ''limit'' = VInt 2500"
    by (simp add: demo_job_args_def data_get_def)
  have rc: "(2500::int) = (if truthy (data_get demo_job_args ''limit'') then 2500
                    else sum_list (map (\<lambda>(q, t). fast_count demo_env q) qs))"
    by (simp add: demo_job_args_def data_get_def)
  from datadump_total [OF J clean plan limit rc]
  obtain cs where "committed w' = committed demo_world @ cs"
    and "\<forall>c \<in> set cs. dd_total c = \<lceil>real_of_int 2500 / 1000\<rceil>" by auto
  then have "list_all (\<lambda>c. dd_total c = \<lceil>real_of_int 2500 / 1000\<rceil>) (committed w')"
    by (simp add: demo_world_def list_all_iff)
  with ev J show ?thesis by simp
qed

theorem datadump_total_counterexample:
  "(case get_observation_datadump demo_env demo_request demo_world
           (demo_job_args(''limit'' \<mapsto> VInt 17592186044416001)) of
      (w', out) \<Rightarrow>
        out = Inr ''http://plenar.io/v1/api/datadump/ticket1''
        \<and> map dd_total (committed w') = [17592186044416, 17592186044416])
   \<and> \<lceil>real_of_int 17592186044416001 / 1000\<rceil> = (17592186044417 :: int)"
proof -
  have "(case get_observation_datadump demo_env demo_request demo_world
           (demo_job_args(''limit'' \<mapsto> VInt 17592186044416001)) of
      (w', out) \<Rightarrow>
        out = Inr ''http://plenar.io/v1/api/datadump/ticket1''
        \<and> map dd_total (committed w') = [17592186044416, 17592186044416])"
    by code_simp
  moreover have "\<lceil>real_of_int 17592186044416001 / 1000\<rceil> = (17592186044417 :: int)"
    by simp
  ultimately show ?thesis by (rule conjI)
qed

end
